theory Spec2Isabelle
  imports Main "HOL-Library.Option_ord"
begin

section \<open>Python values: errors, tensors, slices\<close>

text \<open>
  The development embeds the dataset layer of the notebook \<^verbatim>\<open>tsdataset\<close>
  (classes \<^verbatim>\<open>TimeSeriesLoader\<close>, \<^verbatim>\<open>BaseTimeSeriesDataset\<close> and
  \<^verbatim>\<open>TimeSeriesDataset\<close>). Every \<^verbatim>\<open>raise\<close> of the source, and every
  exception raised by an indexing or a tensor operation the source performs, is a value
  \<open>Inl e\<close> of the result type \<open>error + 'a\<close>.
\<close>

datatype error =
  ValueError | TypeError | IndexError | RuntimeError | AttributeError | KeyError | Exception

text \<open>
  A two-dimensional array (\<^verbatim>\<open>torch.Tensor\<close> or \<^verbatim>\<open>numpy.ndarray\<close>) of shape
  \<open>(nrows, ncols)\<close>, stored row by row. The column count is kept apart from the rows so
  that the shape \<open>(0, c)\<close> of an empty slice is not lost. Cells are of an arbitrary type
  \<open>'a\<close>: the operations below only move cells, and the conversion to 32-bit floats done
  by \<^verbatim>\<open>_as_torch_copy\<close> is outside the model.
\<close>

record 'a tensor =
  ncols :: nat
  rows :: "'a list list"

definition nrows :: "'a tensor \<Rightarrow> nat" where
  "nrows t = length (rows t)"

text \<open>Every array of the program is rectangular; the model states it as a predicate.\<close>

definition wf_tensor :: "'a tensor \<Rightarrow> bool" where
  "wf_tensor t \<longleftrightarrow> list_all (\<lambda>r. length r = ncols t) (rows t)"

text \<open>
  Python's slice bounds for a sequence of length \<open>n\<close>: a negative bound counts from the
  end, and every bound is clamped to \<open>0..n\<close>.
\<close>

definition slice_bound :: "nat \<Rightarrow> int \<Rightarrow> nat" where
  "slice_bound n i = (if i < 0 then nat (max 0 (int n + i)) else min n (nat i))"

definition py_slice :: "'x list \<Rightarrow> int \<Rightarrow> int \<Rightarrow> 'x list" where
  "py_slice xs a b =
     (let lo = slice_bound (length xs) a; hi = slice_bound (length xs) b
      in take (hi - lo) (drop lo xs))"

text \<open>\<^verbatim>\<open>t[a:b, :]\<close> (also written \<^verbatim>\<open>t[a:b]\<close>).\<close>

definition slice_rows :: "'a tensor \<Rightarrow> int \<Rightarrow> int \<Rightarrow> 'a tensor" where
  "slice_rows t a b = t\<lparr>rows := py_slice (rows t) a b\<rparr>"

text \<open>
  Broadcasting of the right-hand side of a slice assignment to the shape \<open>(r, c)\<close> of the
  slice: a dimension must agree with the target or be 1; otherwise torch raises
  \<^verbatim>\<open>RuntimeError\<close> (here \<open>None\<close>).
\<close>

definition expand :: "'a tensor \<Rightarrow> nat \<Rightarrow> nat \<Rightarrow> 'a list list option" where
  "expand v r c =
     (if (nrows v = r \<or> nrows v = 1) \<and> (ncols v = c \<or> ncols v = 1)
      then Some (let widened = (if ncols v = c then rows v
                                else map (\<lambda>row. replicate c (hd row)) (rows v))
                 in if nrows v = r then widened else replicate r (hd widened))
      else None)"

text \<open>\<^verbatim>\<open>tgt[a:b] = v\<close> on rows (all columns).\<close>

definition set_rows :: "'a tensor \<Rightarrow> int \<Rightarrow> int \<Rightarrow> 'a tensor \<Rightarrow> error + 'a tensor" where
  "set_rows tgt a b v =
     (let lo = slice_bound (nrows tgt) a; hi = slice_bound (nrows tgt) b; k = hi - lo
      in case expand v k (ncols tgt) of
           None \<Rightarrow> Inl RuntimeError
         | Some vr \<Rightarrow> Inr (tgt\<lparr>rows := take lo (rows tgt) @ vr @ drop (lo + k) (rows tgt)\<rparr>))"

text \<open>
  \<^verbatim>\<open>torch.zeros(size=(r, c))\<close> and \<^verbatim>\<open>torch.empty(size=(r, c))\<close>; a negative size
  raises \<^verbatim>\<open>RuntimeError\<close>. The cells of an \<^verbatim>\<open>empty\<close> tensor are whatever the
  allocator left there: the model takes that content as the parameter \<open>u\<close>.
\<close>

definition filled :: "'a \<Rightarrow> int \<Rightarrow> int \<Rightarrow> error + 'a tensor" where
  "filled x r c =
     (if r < 0 \<or> c < 0 then Inl RuntimeError
      else Inr \<lparr>ncols = nat c, rows = replicate (nat r) (replicate (nat c) x)\<rparr>)"

definition zeros :: "int \<Rightarrow> int \<Rightarrow> error + ('a::zero) tensor" where
  "zeros r c = filled 0 r c"

text \<open>\<^verbatim>\<open>t.permute(1, 0)\<close>: the transposed tensor, of shape \<open>(ncols, nrows)\<close>.\<close>

definition permute10 :: "'a tensor \<Rightarrow> 'a tensor" where
  "permute10 t =
     \<lparr>ncols = nrows t, rows = map (\<lambda>c. map (\<lambda>r. r ! c) (rows t)) [0..<ncols t]\<rparr>"

text \<open>
  \<^verbatim>\<open>arr[i]\<close> on a one-dimensional numpy array: a negative index counts from the end,
  an index out of range raises \<^verbatim>\<open>IndexError\<close>.
\<close>

definition np_index :: "'x list \<Rightarrow> int \<Rightarrow> error + 'x" where
  "np_index xs i =
     (if 0 \<le> i \<and> i < int (length xs) then Inr (xs ! nat i)
      else if i < 0 \<and> - int (length xs) \<le> i then Inr (xs ! nat (int (length xs) + i))
      else Inl IndexError)"

text \<open>\<^verbatim>\<open>np.diff\<close> and the reductions \<^verbatim>\<open>.max()\<close>, \<^verbatim>\<open>.min()\<close> of a non-empty array.\<close>

definition np_diff :: "int list \<Rightarrow> int list" where
  "np_diff xs = map (\<lambda>(a, b). b - a) (zip xs (tl xs))"

definition np_max :: "int list \<Rightarrow> int" where
  "np_max xs = fold max (tl xs) (hd xs)"

definition np_min :: "int list \<Rightarrow> int" where
  "np_min xs = fold min (tl xs) (hd xs)"

section \<open>The dataset classes\<close>

text \<open>
  The attributes of a \<^verbatim>\<open>TimeSeriesDataset\<close>, those set by its own \<^verbatim>\<open>__init__\<close>
  and those set by \<^verbatim>\<open>BaseTimeSeriesDataset.__init__\<close>. The offsets are Python integers.
\<close>

record 'a dataset =
  temporal :: "'a tensor"
  temporal_cols :: "string list"
  indptr :: "int list"
  n_groups :: int
  static :: "'a tensor option"
  static_cols :: "string list option"
  max_size :: int
  min_size :: int
  y_idx :: int
  updated :: bool

text \<open>\<^verbatim>\<open>_as_torch_copy\<close>: a fresh tensor with the same cells.\<close>

definition as_torch_copy :: "'a tensor \<Rightarrow> 'a tensor" where
  "as_torch_copy x = x"

text \<open>
  \<^verbatim>\<open>TimeSeriesDataset.__init__\<close>, with the body of
  \<^verbatim>\<open>BaseTimeSeriesDataset.__init__\<close> it calls. \<^verbatim>\<open>sizes.max()\<close> raises
  \<^verbatim>\<open>ValueError\<close> on an empty array.
\<close>

definition TimeSeriesDataset_init ::
  "'a tensor \<Rightarrow> string list \<Rightarrow> int list \<Rightarrow> int \<Rightarrow> 'a tensor option \<Rightarrow> string list option
     \<Rightarrow> error + 'a dataset" where
  "TimeSeriesDataset_init temporal' temporal_cols' indptr' y_idx' static' static_cols' =
     (let sizes = np_diff indptr'
      in if sizes = [] then Inl ValueError
         else Inr \<lparr>temporal = as_torch_copy temporal',
                   temporal_cols = temporal_cols',
                   indptr = indptr',
                   n_groups = int (length indptr') - 1,
                   static = map_option as_torch_copy static',
                   static_cols = static_cols',
                   max_size = np_max sizes,
                   min_size = np_min sizes,
                   y_idx = y_idx',
                   updated = False\<rparr>)"

text \<open>
  \<^verbatim>\<open>_ensure_available_mask\<close>: \<^verbatim>\<open>np.append(data, ones, axis=1)\<close> adds one cell to
  every row.
\<close>

definition ensure_available_mask ::
  "('a::one) tensor \<Rightarrow> string list \<Rightarrow> 'a tensor \<times> string list" where
  "ensure_available_mask data cols =
     (if ''available_mask'' \<notin> set cols
      then (\<lparr>ncols = ncols data + 1, rows = map (\<lambda>r. r @ [1]) (rows data)\<rparr>,
            cols @ [''available_mask''])
      else (data, cols))"

text \<open>Sequencing of computations that may raise.\<close>

definition and_then :: "error + 'x \<Rightarrow> ('x \<Rightarrow> error + 'y) \<Rightarrow> error + 'y" where
  "and_then m f = (case m of Inl e \<Rightarrow> Inl e | Inr x \<Rightarrow> f x)"

subsection \<open>\<^verbatim>\<open>__getitem__\<close>\<close>

text \<open>The dictionary returned by \<^verbatim>\<open>__getitem__\<close>; its five keys are always present.\<close>

record 'a item =
  it_temporal :: "'a tensor"
  it_temporal_cols :: "string list"
  it_static :: "'a list option"
  it_static_cols :: "string list option"
  it_y_idx :: int

datatype index = IntIdx int | NotInt

text \<open>
  \<^verbatim>\<open>tgt[:rstop, cstart:] = v\<close>: the first rows, from column \<open>cstart\<close> to the end.
  Python reads \<^verbatim>\<open>-0\<close> as \<open>0\<close>, so \<^verbatim>\<open>-len(ts):\<close> is the whole width when
  \<^verbatim>\<open>ts\<close> is empty.
\<close>

definition set_block :: "'a tensor \<Rightarrow> int \<Rightarrow> int \<Rightarrow> 'a tensor \<Rightarrow> error + 'a tensor" where
  "set_block tgt rstop cstart v =
     (let rk = slice_bound (nrows tgt) rstop; lo = slice_bound (ncols tgt) cstart;
          k = ncols tgt - lo
      in case expand v rk k of
           None \<Rightarrow> Inl RuntimeError
         | Some vr \<Rightarrow>
             Inr (tgt\<lparr>rows := map (\<lambda>(old, new). take lo old @ new) (zip (take rk (rows tgt)) vr)
                                @ drop rk (rows tgt)\<rparr>))"

definition getitem :: "('a::zero) dataset \<Rightarrow> index \<Rightarrow> error + 'a item" where
  "getitem self idx =
     (case idx of
        NotInt \<Rightarrow> Inl ValueError
      | IntIdx i \<Rightarrow>
          and_then (np_index (indptr self) i) (\<lambda>start.
          and_then (np_index (indptr self) (i + 1)) (\<lambda>stop.
          let ts = slice_rows (temporal self) start stop in
          and_then
            (if (int (length (temporal_cols self)), max_size self) = (int (ncols ts), int (nrows ts))
             then Inr (permute10 ts)
             else and_then (zeros (int (length (temporal_cols self))) (max_size self)) (\<lambda>z.
                    set_block z (int (length (temporal_cols self))) (- int (nrows ts)) (permute10 ts)))
            (\<lambda>temporal'.
          and_then
            (case static self of
               None \<Rightarrow> Inr None
             | Some s \<Rightarrow> and_then (np_index (rows s) i) (\<lambda>r. Inr (Some r)))
            (\<lambda>static'.
          Inr \<lparr>it_temporal = temporal', it_temporal_cols = temporal_cols self,
               it_static = static', it_static_cols = static_cols self,
               it_y_idx = y_idx self\<rparr>)))))"

subsection \<open>\<^verbatim>\<open>__eq__\<close>\<close>

text \<open>
  An object \<^verbatim>\<open>__eq__\<close> may be compared with: a dataset, or any other object, given by
  the names of its attributes. A dataset has the attributes its two constructors set and
  the methods of its classes; none of them is called \<^verbatim>\<open>data\<close>.
\<close>

datatype 'a pyobj = DatasetObj "'a dataset" | OtherObj "string list"

definition dataset_attrs :: "string list" where
  "dataset_attrs =
     [''temporal'', ''indptr'', ''n_groups'', ''temporal_cols'', ''static'', ''static_cols'',
      ''max_size'', ''min_size'', ''y_idx'', ''updated'',
      ''align'', ''append'', ''update_dataset'', ''trim_dataset'', ''from_df'']"

definition hasattr :: "'a pyobj \<Rightarrow> string \<Rightarrow> bool" where
  "hasattr obj name =
     (case obj of DatasetObj d \<Rightarrow> name \<in> set dataset_attrs | OtherObj attrs \<Rightarrow> name \<in> set attrs)"

text \<open>
  When \<^verbatim>\<open>other\<close> has both attributes, the comparison evaluates \<^verbatim>\<open>self.data\<close>
  first, which raises \<^verbatim>\<open>AttributeError\<close> on a dataset.
\<close>

definition dataset_eq :: "'a dataset \<Rightarrow> 'a pyobj \<Rightarrow> error + bool" where
  "dataset_eq self other =
     (if \<not> hasattr other ''data'' \<or> \<not> hasattr other ''indptr'' then Inr False
      else Inl AttributeError)"

subsection \<open>\<^verbatim>\<open>append\<close>\<close>

text \<open>The loop \<^verbatim>\<open>for i in range(self.n_groups)\<close> of \<^verbatim>\<open>append\<close>.\<close>

fun append_loop ::
  "'a dataset \<Rightarrow> 'a dataset \<Rightarrow> int list \<Rightarrow> nat list \<Rightarrow> 'a tensor \<Rightarrow> error + 'a tensor" where
  "append_loop self futr new_indptr [] new_temporal = Inr new_temporal"
| "append_loop self futr new_indptr (i # is) new_temporal =
     and_then (np_index (indptr self) (int i)) (\<lambda>curr_start.
     and_then (np_index (indptr self) (int i + 1)) (\<lambda>curr_stop.
     let curr_size = curr_stop - curr_start in
     and_then (np_index (indptr futr) (int i)) (\<lambda>futr_start.
     and_then (np_index (indptr futr) (int i + 1)) (\<lambda>futr_stop.
     and_then (np_index new_indptr (int i)) (\<lambda>new_start.
     and_then (set_rows new_temporal new_start (new_start + curr_size)
                 (slice_rows (temporal self) curr_start curr_stop)) (\<lambda>t1.
     and_then (np_index new_indptr (int i + 1)) (\<lambda>new_stop.
     and_then (set_rows t1 (new_start + curr_size) new_stop
                 (slice_rows (temporal futr) futr_start futr_stop)) (\<lambda>t2.
     append_loop self futr new_indptr is t2))))))))"

definition append :: "'a \<Rightarrow> 'a dataset \<Rightarrow> 'a dataset \<Rightarrow> error + 'a dataset" where
  "append u self futr_dataset =
     (if length (indptr self) \<noteq> length (indptr futr_dataset) then Inl ValueError
      else
        let len_temporal = nrows (temporal self); col_temporal = ncols (temporal self);
            len_futr = nrows (temporal futr_dataset)
        in and_then (filled u (int len_temporal + int len_futr) (int col_temporal)) (\<lambda>new_temporal.
           let new_indptr = map2 (+) (indptr self) (indptr futr_dataset)
           in and_then (append_loop self futr_dataset new_indptr [0..<nat (n_groups self)]
                          new_temporal) (\<lambda>new_temporal.
              TimeSeriesDataset_init new_temporal (temporal_cols self) new_indptr (y_idx self)
                (static self) (static_cols self))))"

subsection \<open>\<^verbatim>\<open>trim_dataset\<close>\<close>

text \<open>
  The loop of \<^verbatim>\<open>trim_dataset\<close>; its state is \<^verbatim>\<open>new_temporal\<close>, \<^verbatim>\<open>acum\<close> and
  \<^verbatim>\<open>new_indptr\<close>.
\<close>

fun trim_loop ::
  "'a dataset \<Rightarrow> int \<Rightarrow> int \<Rightarrow> nat list \<Rightarrow> 'a tensor \<times> int \<times> int list
     \<Rightarrow> error + ('a tensor \<times> int \<times> int list)" where
  "trim_loop dataset left_trim right_trim [] st = Inr st"
| "trim_loop dataset left_trim right_trim (i # is) (new_temporal, acum, new_indptr) =
     and_then (np_index (indptr dataset) (int i + 1)) (\<lambda>stop.
     and_then (np_index (indptr dataset) (int i)) (\<lambda>start.
     let series_length = stop - start;
         new_length = series_length - left_trim - right_trim
     in and_then (set_rows new_temporal acum (acum + new_length)
                    (slice_rows (temporal dataset) (start + left_trim) (stop - right_trim)))
          (\<lambda>t. trim_loop dataset left_trim right_trim is
                 (t, acum + new_length, new_indptr @ [acum + new_length]))))"

definition trim_dataset :: "('a::zero) dataset \<Rightarrow> int \<Rightarrow> int \<Rightarrow> error + 'a dataset" where
  "trim_dataset dataset left_trim right_trim =
     (if min_size dataset \<le> left_trim + right_trim then Inl Exception
      else
        let len_temporal = int (nrows (temporal dataset));
            col_temporal = int (ncols (temporal dataset));
            total_trim = (left_trim + right_trim) * n_groups dataset
        in and_then (zeros (len_temporal - total_trim) col_temporal) (\<lambda>new_temporal.
           and_then (trim_loop dataset left_trim right_trim [0..<nat (n_groups dataset)]
                       (new_temporal, 0, [0])) (\<lambda>(new_temporal, acum, new_indptr).
           TimeSeriesDataset_init new_temporal (temporal_cols dataset) new_indptr
             (y_idx dataset) (static dataset) (static_cols dataset))))"

subsection \<open>\<^verbatim>\<open>TimeSeriesLoader._collate_fn\<close>\<close>

text \<open>
  The result of \<^verbatim>\<open>torch.stack(batch, 0)\<close> and of \<^verbatim>\<open>elem.unsqueeze(0)\<close>: a tensor
  with one more dimension in front, given by its shape and by the stacked tensors in order.
\<close>

datatype 't stacked = Stacked (st_shape: "nat list") (st_parts: "'t list")

definition shape2 :: "'a tensor \<Rightarrow> nat list" where
  "shape2 t = [nrows t, ncols t]"

definition shape1 :: "'a list \<Rightarrow> nat list" where
  "shape1 v = [length v]"

text \<open>
  The tensor branch of \<^verbatim>\<open>_collate_fn\<close>, reached when the first element is a tensor.
  An element that is not a tensor (\<open>None\<close>) makes \<^verbatim>\<open>torch.stack\<close> raise
  \<^verbatim>\<open>TypeError\<close>, tensors of different shapes make it raise \<^verbatim>\<open>RuntimeError\<close>. The
  shared-memory branch only chooses where the result is stored.
\<close>

definition collate_tensors :: "('t \<Rightarrow> nat list) \<Rightarrow> 't \<Rightarrow> 't option list \<Rightarrow> error + 't stacked" where
  "collate_tensors shape elem batch =
     (if length batch = 1 then Inr (Stacked (1 # shape elem) [elem])
      else if None \<in> set batch then Inl TypeError
      else if list_all (\<lambda>x. shape (the x) = shape elem) batch
           then Inr (Stacked (length batch # shape elem) (map the batch))
           else Inl RuntimeError)"

datatype 'a elem = TensorElem "'a tensor" | MappingElem "'a item" | OtherElem

datatype 'a dict_value =
  Stacked2 "'a tensor stacked" | Stacked1 "'a list stacked" | Names "string list" | NoneValue
  | IntValue int

datatype 'a collated = CollatedTensor "'a tensor stacked" | CollatedDict "(string \<times> 'a dict_value) list"

text \<open>
  \<^verbatim>\<open>[d[key] for d in batch]\<close>: subscripting a tensor with a key raises
  \<^verbatim>\<open>IndexError\<close>, subscripting another element that is not a mapping raises
  \<^verbatim>\<open>TypeError\<close>.
\<close>

fun gather :: "('a item \<Rightarrow> 'v) \<Rightarrow> 'a elem list \<Rightarrow> error + 'v list" where
  "gather f [] = Inr []"
| "gather f (MappingElem d # ds) = and_then (gather f ds) (\<lambda>vs. Inr (f d # vs))"
| "gather f (TensorElem t # ds) = Inl IndexError"
| "gather f (OtherElem # ds) = Inl TypeError"

definition as_tensor_elem :: "'a elem \<Rightarrow> 'a tensor option" where
  "as_tensor_elem e = (case e of TensorElem t \<Rightarrow> Some t | _ \<Rightarrow> None)"

text \<open>
  \<^verbatim>\<open>self.collate_fn\<close> is \<^verbatim>\<open>self._collate_fn\<close> (set in \<^verbatim>\<open>__init__\<close>); the inner
  calls receive lists that start with a tensor and so take the tensor branch.
\<close>

definition collate_fn :: "'a elem list \<Rightarrow> error + 'a collated" where
  "collate_fn batch =
     (case batch of
        [] \<Rightarrow> Inl IndexError
      | TensorElem t # _ \<Rightarrow>
          and_then (collate_tensors shape2 t (map as_tensor_elem batch)) (\<lambda>r.
          Inr (CollatedTensor r))
      | MappingElem elem # _ \<Rightarrow>
          (case it_static elem of
             None \<Rightarrow>
               and_then (gather it_temporal batch) (\<lambda>ts.
               and_then (collate_tensors shape2 (it_temporal elem) (map Some ts)) (\<lambda>temporal'.
               Inr (CollatedDict
                 [(''temporal'', Stacked2 temporal'),
                  (''temporal_cols'', Names (it_temporal_cols elem)),
                  (''y_idx'', IntValue (it_y_idx elem))])))
           | Some s \<Rightarrow>
               and_then (gather it_static batch) (\<lambda>ss.
               and_then (collate_tensors shape1 s ss) (\<lambda>static'.
               and_then (gather it_temporal batch) (\<lambda>ts.
               and_then (collate_tensors shape2 (it_temporal elem) (map Some ts)) (\<lambda>temporal'.
               Inr (CollatedDict
                 [(''static'', Stacked1 static'),
                  (''static_cols'',
                     (case it_static_cols elem of None \<Rightarrow> NoneValue | Some c \<Rightarrow> Names c)),
                  (''temporal'', Stacked2 temporal'),
                  (''temporal_cols'', Names (it_temporal_cols elem)),
                  (''y_idx'', IntValue (it_y_idx elem))]))))))
      | OtherElem # _ \<Rightarrow> Inl TypeError)"

section \<open>Building datasets from data frames\<close>

text \<open>
  A data frame with an identifier column, a time column and named value columns. A record
  holds the identifier, the time and one cell for each value column, in the order of
  \<open>value_cols\<close>; the identifier and time columns are not value columns. In the frames
  handed to \<^verbatim>\<open>from_df\<close> an identifier is \<open>Some i\<close>, or \<open>None\<close> when the cell of
  the identifier column is missing (\<^verbatim>\<open>NaN\<close> or \<^verbatim>\<open>None\<close>).
\<close>

record ('i, 't, 'a) dataframe =
  value_cols :: "string list"
  records :: "('i \<times> 't \<times> 'a list) list"

definition rec_id :: "'i \<times> 't \<times> 'a list \<Rightarrow> 'i" where
  "rec_id r = fst r"

definition rec_time :: "'i \<times> 't \<times> 'a list \<Rightarrow> 't" where
  "rec_time r = fst (snd r)"

definition rec_vals :: "'i \<times> 't \<times> 'a list \<Rightarrow> 'a list" where
  "rec_vals r = snd (snd r)"

definition df_columns :: "string \<Rightarrow> string \<Rightarrow> ('i, 't, 'a) dataframe \<Rightarrow> string list" where
  "df_columns id_col time_col df = id_col # time_col # value_cols df"


fun pos :: "'k \<Rightarrow> 'k list \<Rightarrow> nat" where
  "pos c [] = 0"
| "pos c (x # xs) = (if x = c then 0 else Suc (pos c xs))"

text \<open>The cell of a record in the column called \<open>c\<close>.\<close>

definition cell :: "string list \<Rightarrow> 'a list \<Rightarrow> string \<Rightarrow> 'a" where
  "cell names vals c = vals ! pos c names"

fun cumsum_from :: "int \<Rightarrow> int list \<Rightarrow> int list" where
  "cumsum_from a [] = []"
| "cumsum_from a (x # xs) = (a + x) # cumsum_from (a + x) xs"

text \<open>
  \<^verbatim>\<open>utilsforecast.processing.process_df\<close> is a function of the library
  \<^verbatim>\<open>utilsforecast\<close>, not of this repository. It is modelled by what
  \<^verbatim>\<open>from_df\<close> relies on (see the comment \<^verbatim>\<open>processor sets y as the first column\<close>
  and the test on \<^verbatim>\<open>sort_df\<close> in the notebook): the records are arranged by
  identifier, the identifiers in increasing order, and within an identifier by time,
  keeping the order of records with equal times; the data array holds the target column
  first and then the other value columns in the order of the frame; the offsets are the
  running sums of the numbers of records of each identifier after a leading 0. The
  functions \<open>group_records\<close>, \<open>frame_uids\<close>, \<open>frame_rows\<close> and \<open>frame_indptr\<close>
  describe this arrangement for records that all have an identifier.
\<close>

definition group_records ::
  "('i::linorder \<times> 't::linorder \<times> 'a list) list \<Rightarrow> 'i \<Rightarrow> ('i \<times> 't \<times> 'a list) list" where
  "group_records rs u = sort_key rec_time (filter (\<lambda>r. rec_id r = u) rs)"

definition frame_uids :: "('i::linorder \<times> 't \<times> 'a list) list \<Rightarrow> 'i list" where
  "frame_uids rs = sort (remdups (map rec_id rs))"

definition frame_rows ::
  "(('i::linorder \<times> 't::linorder \<times> 'a list) \<Rightarrow> 'b) \<Rightarrow> ('i \<times> 't \<times> 'a list) list \<Rightarrow> 'b list" where
  "frame_rows g rs = concat (map (\<lambda>u. map g (group_records rs u)) (frame_uids rs))"

definition frame_indptr :: "('i::linorder \<times> 't::linorder \<times> 'a list) list \<Rightarrow> int list" where
  "frame_indptr rs =
     0 # cumsum_from 0 (map (\<lambda>u. int (length (group_records rs u))) (frame_uids rs))"

text \<open>
  The library counts the records of each identifier by grouping the frame, and a grouping
  leaves out the records whose identifier is missing; the data array is the whole frame,
  sorted, and a missing identifier sorts last. So the records without identifier are
  counted in no group and their rows follow the rows of the groups (this is the
  behaviour on a pandas frame, the kind the notebook's tests build). A frame without its
  target column is refused with \<^verbatim>\<open>ValueError\<close>. Of the five results the model
  returns the three that reach the dataset: identifiers, data and offsets.
\<close>

definition process_df ::
  "('i::linorder option, 't::linorder, 'a) dataframe \<Rightarrow> string \<Rightarrow> string \<Rightarrow> string
     \<Rightarrow> error + ('i list \<times> 'a tensor \<times> int list)" where
  "process_df df id_col time_col target_col =
     (if target_col \<notin> set (value_cols df) then Inl ValueError
      else
        let data_cols = target_col # filter (\<lambda>c. c \<notin> set [id_col, time_col, target_col])
                                       (df_columns id_col time_col df);
            row = (\<lambda>r. map (cell (value_cols df) (rec_vals r)) data_cols);
            grouped = filter (\<lambda>r. rec_id r \<noteq> None) (records df);
            ungrouped = filter (\<lambda>r. rec_id r = None) (records df)
        in Inr (map the (frame_uids grouped),
                \<lparr>ncols = length data_cols,
                 rows = frame_rows row grouped @ map row (sort_key rec_time ungrouped)\<rparr>,
                frame_indptr grouped))"




text \<open>A frame of static features: one record for each identifier.\<close>

record ('i, 'a) static_frame =
  sf_cols :: "string list"
  sf_records :: "('i \<times> 'a list) list"

definition extract_static_features ::
  "('i::linorder, 'a) static_frame option \<Rightarrow> string \<Rightarrow> 'a tensor option \<times> string list option" where
  "extract_static_features static_df id_col =
     (case static_df of
        Some sdf \<Rightarrow>
          let static_cols = filter (\<lambda>col. col \<noteq> id_col) (id_col # sf_cols sdf)
          in (Some \<lparr>ncols = length static_cols,
                    rows = map (\<lambda>r. map (cell (sf_cols sdf) (snd r)) static_cols)
                             (sort_key fst (sf_records sdf))\<rparr>,
              Some static_cols)
      | None \<Rightarrow> (None, None))"

text \<open>
  \<^verbatim>\<open>from_df\<close>; of its four results the model returns the dataset. The array passed on
  is \<^verbatim>\<open>data\<close> with the mask column; the constructor converts it to a tensor.
\<close>

definition from_df ::
  "('i::linorder option, 't::linorder, 'a::one) dataframe \<Rightarrow> ('i, 'a) static_frame option
     \<Rightarrow> string \<Rightarrow> string \<Rightarrow> string \<Rightarrow> error + 'a dataset" where
  "from_df df static_df id_col time_col target_col =
     (let (static', static_cols') = extract_static_features static_df id_col
      in and_then (process_df df id_col time_col target_col) (\<lambda>(ids, data, indptr').
         let temporal_cols0 =
               target_col # filter (\<lambda>c. c \<notin> set [id_col, time_col, target_col])
                              (df_columns id_col time_col df);
             (temporal', temporal_cols') = ensure_available_mask data temporal_cols0
         in TimeSeriesDataset_init temporal' temporal_cols' indptr' 0 static' static_cols'))"

text \<open>
  \<^verbatim>\<open>ufp.assign_columns(df, col, v)\<close>: a constant column, overwriting the column of that
  name or added as the last one.
\<close>

definition assign_columns ::
  "('i, 't, 'a) dataframe \<Rightarrow> string \<Rightarrow> 'a \<Rightarrow> ('i, 't, 'a) dataframe" where
  "assign_columns df col v =
     (if col \<in> set (value_cols df)
      then df\<lparr>records := map (\<lambda>(i, t, vs). (i, t, vs[pos col (value_cols df) := v])) (records df)\<rparr>
      else df\<lparr>value_cols := value_cols df @ [col],
              records := map (\<lambda>(i, t, vs). (i, t, vs @ [v])) (records df)\<rparr>)"

text \<open>
  \<^verbatim>\<open>df[[id_col, time_col] + cols]\<close>: the value columns \<open>cols\<close> in that order; a name
  that is not a value column raises \<^verbatim>\<open>KeyError\<close>.
\<close>

definition select_columns ::
  "('i, 't, 'a) dataframe \<Rightarrow> string list \<Rightarrow> error + ('i, 't, 'a) dataframe" where
  "select_columns df cols =
     (if list_all (\<lambda>c. c \<in> set (value_cols df)) cols
      then Inr \<lparr>value_cols = cols,
                records = map (\<lambda>(i, t, vs). (i, t, map (cell (value_cols df) vs) cols)) (records df)\<rparr>
      else Inl KeyError)"

text \<open>
  \<^verbatim>\<open>align\<close>; \<open>nan\<close> stands for \<^verbatim>\<open>np.nan\<close>. Every missing column is filled with
  \<open>nan\<close>, and the column \<^verbatim>\<open>available_mask\<close> is set to 1 in every record.
\<close>

definition align ::
  "'a \<Rightarrow> ('a::one) dataset \<Rightarrow> ('i::linorder option, 't::linorder, 'a) dataframe
     \<Rightarrow> string \<Rightarrow> string \<Rightarrow> string \<Rightarrow> error + 'a dataset" where
  "align nan self df id_col time_col target_col =
     (let df1 = fold (\<lambda>col d.
                   let d1 = (if col \<notin> set (df_columns id_col time_col d)
                             then assign_columns d col nan else d)
                   in if col = ''available_mask'' then assign_columns d1 col 1 else d1)
                 (temporal_cols self) df
      in and_then (select_columns df1 (temporal_cols self)) (\<lambda>df2.
         from_df df2 None id_col time_col target_col))"


section \<open>Objects on a heap\<close>

text \<open>
  To state what \<^verbatim>\<open>trim_dataset\<close> leaves untouched when it raises, datasets live in a
  heap of objects and a reference is a position in it; a call that raises constructs no
  object.
\<close>

type_synonym 'a heap = "'a dataset list"

definition trim_method ::
  "('a::zero) heap \<Rightarrow> nat \<Rightarrow> int \<Rightarrow> int \<Rightarrow> 'a heap \<times> (error + nat)" where
  "trim_method h dataset left_trim right_trim =
     (case trim_dataset (h ! dataset) left_trim right_trim of
        Inl e \<Rightarrow> (h, Inl e)
      | Inr d \<Rightarrow> (h @ [d], Inr (length h)))"

text \<open>Successive calls \<^verbatim>\<open>d = d.append(f)\<close> for the datasets \<open>f\<close> of a list.\<close>

fun append_all :: "'a \<Rightarrow> 'a dataset \<Rightarrow> 'a dataset list \<Rightarrow> error + 'a dataset" where
  "append_all u d [] = Inr d"
| "append_all u d (f # fs) = and_then (append u d f) (\<lambda>d'. append_all u d' fs)"

section \<open>Arrays and objects by reference\<close>

text \<open>
  In the program a dataset is an object whose attributes \<^verbatim>\<open>temporal\<close>, \<^verbatim>\<open>static\<close>
  and \<^verbatim>\<open>indptr\<close> refer to mutable arrays, and a slice assignment writes into the
  array its target refers to. To state which arrays and objects a method writes, the
  store holds the tensors, the integer arrays and the objects, each addressed by its
  position; an attribute that refers to an array holds its address. Allocation adds at
  the end, so an address is new exactly when it is not below the old length.
\<close>

record pyobject =
  a_temporal :: nat
  a_temporal_cols :: "string list"
  a_indptr :: nat
  a_n_groups :: int
  a_static :: "nat option"
  a_static_cols :: "string list option"
  a_max_size :: int
  a_min_size :: int
  a_y_idx :: int
  a_updated :: bool

record 'a store =
  tensors :: "'a tensor list"
  arrays :: "int list list"
  objects :: "pyobject list"

text \<open>
  A statement maps a store to a result or an exception and the store it leaves;
  \<open>bind_st\<close> runs two statements in sequence and stops at the first exception.
\<close>

definition bind_st ::
  "('s \<Rightarrow> (error + 'x) \<times> 's) \<Rightarrow> ('x \<Rightarrow> 's \<Rightarrow> (error + 'y) \<times> 's) \<Rightarrow> 's \<Rightarrow> (error + 'y) \<times> 's" where
  "bind_st m f s = (case m s of (Inl e, s') \<Rightarrow> (Inl e, s') | (Inr x, s') \<Rightarrow> f x s')"

text \<open>
  Allocation of a tensor (\<^verbatim>\<open>torch.empty\<close>, \<^verbatim>\<open>torch.zeros\<close>, \<^verbatim>\<open>clone\<close>), of an
  integer array (\<^verbatim>\<open>self.indptr + futr_dataset.indptr\<close>, \<^verbatim>\<open>np.array\<close>) and of an
  object.
\<close>

definition new_tensor :: "error + 'a tensor \<Rightarrow> 'a store \<Rightarrow> (error + nat) \<times> 'a store" where
  "new_tensor r s =
     (case r of Inl e \<Rightarrow> (Inl e, s)
      | Inr t \<Rightarrow> (Inr (length (tensors s)), s\<lparr>tensors := tensors s @ [t]\<rparr>))"

definition new_array :: "int list \<Rightarrow> 'a store \<Rightarrow> (error + nat) \<times> 'a store" where
  "new_array xs s = (Inr (length (arrays s)), s\<lparr>arrays := arrays s @ [xs]\<rparr>)"

definition new_object :: "pyobject \<Rightarrow> 'a store \<Rightarrow> (error + nat) \<times> 'a store" where
  "new_object ob s = (Inr (length (objects s)), s\<lparr>objects := objects s @ [ob]\<rparr>)"

text \<open>
  \<^verbatim>\<open>arr[i]\<close> and \<^verbatim>\<open>t[a:b]\<close> read the store; \<^verbatim>\<open>tgt[a:b] = v\<close> replaces the tensor at
  the address \<open>tgt\<close>.
\<close>

definition index_array :: "nat \<Rightarrow> int \<Rightarrow> 'a store \<Rightarrow> (error + int) \<times> 'a store" where
  "index_array a i s = (np_index (arrays s ! a) i, s)"

definition slice_tensor :: "nat \<Rightarrow> int \<Rightarrow> int \<Rightarrow> 'a store \<Rightarrow> (error + 'a tensor) \<times> 'a store" where
  "slice_tensor t a b s = (Inr (slice_rows (tensors s ! t) a b), s)"

definition assign_rows :: "nat \<Rightarrow> int \<Rightarrow> int \<Rightarrow> 'a tensor \<Rightarrow> 'a store \<Rightarrow> (error + unit) \<times> 'a store" where
  "assign_rows tgt a b v s =
     (case set_rows (tensors s ! tgt) a b v of
        Inl e \<Rightarrow> (Inl e, s)
      | Inr t \<Rightarrow> (Inr (), s\<lparr>tensors := (tensors s)[tgt := t]\<rparr>))"

text \<open>\<^verbatim>\<open>_as_torch_copy\<close> on a tensor in the store: \<^verbatim>\<open>clone()\<close> allocates the copy.\<close>

definition clone :: "nat \<Rightarrow> 'a store \<Rightarrow> (error + nat) \<times> 'a store" where
  "clone a s = new_tensor (Inr (as_torch_copy (tensors s ! a))) s"

text \<open>
  The constructor call \<^verbatim>\<open>TimeSeriesDataset(...)\<close> on arrays in the store: the new
  object refers to a copy of \<^verbatim>\<open>temporal\<close>, to the array \<^verbatim>\<open>indptr\<close> itself and to a
  copy of \<^verbatim>\<open>static\<close>. The object is added to the store when its constructor returns;
  a constructor that raises leaves no object behind.
\<close>

definition TimeSeriesDataset_new ::
  "nat \<Rightarrow> string list \<Rightarrow> nat \<Rightarrow> int \<Rightarrow> nat option \<Rightarrow> string list option
     \<Rightarrow> 'a store \<Rightarrow> (error + nat) \<times> 'a store" where
  "TimeSeriesDataset_new temporal' temporal_cols' indptr' y_idx' static' static_cols' =
     bind_st (clone temporal') (\<lambda>self_temporal s.
       let sizes = np_diff (arrays s ! indptr')
       in if sizes = [] then (Inl ValueError, s)
          else bind_st (case static' of
                          None \<Rightarrow> (\<lambda>s. (Inr None, s))
                        | Some a \<Rightarrow> bind_st (clone a) (\<lambda>c s. (Inr (Some c), s)))
                 (\<lambda>self_static s.
                    new_object
                      \<lparr>a_temporal = self_temporal, a_temporal_cols = temporal_cols',
                       a_indptr = indptr',
                       a_n_groups = int (length (arrays s ! indptr')) - 1,
                       a_static = self_static, a_static_cols = static_cols',
                       a_max_size = np_max sizes, a_min_size = np_min sizes,
                       a_y_idx = y_idx', a_updated = False\<rparr> s) s)"

text \<open>
  \<^verbatim>\<open>append\<close> as a sequence of statements on the store. \<open>self\<close> and
  \<open>futr_dataset\<close> are the addresses of two objects; \<^verbatim>\<open>new_temporal\<close> and
  \<^verbatim>\<open>new_indptr\<close> are the addresses of the arrays the method allocates.
\<close>

fun append_loop_heap ::
  "nat \<Rightarrow> nat \<Rightarrow> nat \<Rightarrow> nat \<Rightarrow> nat list \<Rightarrow> 'a store \<Rightarrow> (error + unit) \<times> 'a store" where
  "append_loop_heap self futr new_indptr new_temporal [] s = (Inr (), s)"
| "append_loop_heap self futr new_indptr new_temporal (i # is) s =
     bind_st (index_array (a_indptr (objects s ! self)) (int i)) (\<lambda>curr_start.
     bind_st (\<lambda>s. index_array (a_indptr (objects s ! self)) (int i + 1) s) (\<lambda>curr_stop.
     let curr_size = curr_stop - curr_start in
     bind_st (\<lambda>s. index_array (a_indptr (objects s ! futr)) (int i) s) (\<lambda>futr_start.
     bind_st (\<lambda>s. index_array (a_indptr (objects s ! futr)) (int i + 1) s) (\<lambda>futr_stop.
     bind_st (\<lambda>s. slice_tensor (a_temporal (objects s ! self)) curr_start curr_stop s) (\<lambda>v1.
     bind_st (index_array new_indptr (int i)) (\<lambda>new_start.
     bind_st (assign_rows new_temporal new_start (new_start + curr_size) v1) (\<lambda>_.
     bind_st (\<lambda>s. slice_tensor (a_temporal (objects s ! futr)) futr_start futr_stop s) (\<lambda>v2.
     bind_st (index_array new_indptr (int i + 1)) (\<lambda>new_stop.
     bind_st (assign_rows new_temporal (new_start + curr_size) new_stop v2) (\<lambda>_ s.
     append_loop_heap self futr new_indptr new_temporal is s)))))))))) s"

definition append_heap :: "'a \<Rightarrow> nat \<Rightarrow> nat \<Rightarrow> 'a store \<Rightarrow> (error + nat) \<times> 'a store" where
  "append_heap u self futr_dataset s =
     (if length (arrays s ! a_indptr (objects s ! self))
           \<noteq> length (arrays s ! a_indptr (objects s ! futr_dataset))
      then (Inl ValueError, s)
      else
        let len_temporal = nrows (tensors s ! a_temporal (objects s ! self));
            col_temporal = ncols (tensors s ! a_temporal (objects s ! self));
            len_futr = nrows (tensors s ! a_temporal (objects s ! futr_dataset))
        in bind_st (new_tensor (filled u (int len_temporal + int len_futr) (int col_temporal)))
             (\<lambda>new_temporal.
           bind_st (\<lambda>s. new_array (map2 (+) (arrays s ! a_indptr (objects s ! self))
                                      (arrays s ! a_indptr (objects s ! futr_dataset))) s)
             (\<lambda>new_indptr.
           bind_st (\<lambda>s. append_loop_heap self futr_dataset new_indptr new_temporal
                           [0..<nat (a_n_groups (objects s ! self))] s)
             (\<lambda>_ s.
           TimeSeriesDataset_new new_temporal (a_temporal_cols (objects s ! self)) new_indptr
             (a_y_idx (objects s ! self)) (a_static (objects s ! self))
             (a_static_cols (objects s ! self)) s))) s)"

text \<open>
  \<^verbatim>\<open>trim_dataset\<close> on the store; \<^verbatim>\<open>acum\<close> and the list \<^verbatim>\<open>new_indptr\<close> are local
  values, and \<^verbatim>\<open>np.array(new_indptr)\<close> allocates the array of offsets.
\<close>

fun trim_loop_heap ::
  "nat \<Rightarrow> int \<Rightarrow> int \<Rightarrow> nat \<Rightarrow> nat list \<Rightarrow> int \<times> int list \<Rightarrow> 'a store
     \<Rightarrow> (error + int \<times> int list) \<times> 'a store" where
  "trim_loop_heap dataset left_trim right_trim new_temporal [] st s = (Inr st, s)"
| "trim_loop_heap dataset left_trim right_trim new_temporal (i # is) (acum, new_indptr) s =
     bind_st (index_array (a_indptr (objects s ! dataset)) (int i + 1)) (\<lambda>stop.
     bind_st (\<lambda>s. index_array (a_indptr (objects s ! dataset)) (int i) s) (\<lambda>start.
     let series_length = stop - start;
         new_length = series_length - left_trim - right_trim
     in bind_st (\<lambda>s. slice_tensor (a_temporal (objects s ! dataset)) (start + left_trim)
                       (stop - right_trim) s) (\<lambda>v.
        bind_st (assign_rows new_temporal acum (acum + new_length) v) (\<lambda>_ s.
        trim_loop_heap dataset left_trim right_trim new_temporal is
          (acum + new_length, new_indptr @ [acum + new_length]) s)))) s"

definition trim_dataset_heap ::
  "nat \<Rightarrow> int \<Rightarrow> int \<Rightarrow> ('a::zero) store \<Rightarrow> (error + nat) \<times> 'a store" where
  "trim_dataset_heap dataset left_trim right_trim s =
     (if a_min_size (objects s ! dataset) \<le> left_trim + right_trim then (Inl Exception, s)
      else
        let len_temporal = int (nrows (tensors s ! a_temporal (objects s ! dataset)));
            col_temporal = int (ncols (tensors s ! a_temporal (objects s ! dataset)));
            total_trim = (left_trim + right_trim) * a_n_groups (objects s ! dataset)
        in bind_st (new_tensor (zeros (len_temporal - total_trim) col_temporal))
             (\<lambda>new_temporal.
           bind_st (\<lambda>s. trim_loop_heap dataset left_trim right_trim new_temporal
                           [0..<nat (a_n_groups (objects s ! dataset))] (0, [0]) s)
             (\<lambda>(acum, new_indptr).
           bind_st (new_array new_indptr) (\<lambda>indptr' s.
           TimeSeriesDataset_new new_temporal (a_temporal_cols (objects s ! dataset)) indptr'
             (a_y_idx (objects s ! dataset)) (a_static (objects s ! dataset))
             (a_static_cols (objects s ! dataset)) s))) s)"

text \<open>
  The dataset an object of the store denotes: its attributes, with every reference
  replaced by the array it refers to. An object is live when it and the arrays it refers
  to are in the store.
\<close>

definition dataset_at :: "'a store \<Rightarrow> nat \<Rightarrow> 'a dataset" where
  "dataset_at s r =
     \<lparr>temporal = tensors s ! a_temporal (objects s ! r),
      temporal_cols = a_temporal_cols (objects s ! r),
      indptr = arrays s ! a_indptr (objects s ! r),
      n_groups = a_n_groups (objects s ! r),
      static = map_option (\<lambda>a. tensors s ! a) (a_static (objects s ! r)),
      static_cols = a_static_cols (objects s ! r),
      max_size = a_max_size (objects s ! r),
      min_size = a_min_size (objects s ! r),
      y_idx = a_y_idx (objects s ! r),
      updated = a_updated (objects s ! r)\<rparr>"

definition live :: "'a store \<Rightarrow> nat \<Rightarrow> bool" where
  "live s r \<longleftrightarrow>
     r < length (objects s) \<and>
     a_temporal (objects s ! r) < length (tensors s) \<and>
     a_indptr (objects s ! r) < length (arrays s) \<and>
     (case a_static (objects s ! r) of None \<Rightarrow> True | Some a \<Rightarrow> a < length (tensors s))"

text \<open>
  No tensor, array or object of the store \<open>s\<close> is removed or changed in \<open>s'\<close>.
\<close>

definition unchanged :: "'a store \<Rightarrow> 'a store \<Rightarrow> bool" where
  "unchanged s s' \<longleftrightarrow>
     (\<forall>a<length (tensors s). a < length (tensors s') \<and> tensors s' ! a = tensors s ! a) \<and>
     (\<forall>a<length (arrays s). a < length (arrays s') \<and> arrays s' ! a = arrays s ! a) \<and>
     (\<forall>r<length (objects s). r < length (objects s') \<and> objects s' ! r = objects s ! r)"

section \<open>Properties of datasets\<close>

text \<open>The rows the methods read for group \<open>i\<close>: \<^verbatim>\<open>temporal[indptr[i]:indptr[i + 1]]\<close>.\<close>

definition series :: "'a dataset \<Rightarrow> nat \<Rightarrow> 'a list list" where
  "series ds i = py_slice (rows (temporal ds)) (indptr ds ! i) (indptr ds ! Suc i)"

text \<open>
  The rows \<^verbatim>\<open>trim_dataset\<close> copies for group \<open>j\<close>, and the offset at which the
  copy of group \<open>k\<close> starts.
\<close>

definition trimmed :: "'a dataset \<Rightarrow> int \<Rightarrow> int \<Rightarrow> nat \<Rightarrow> 'a list list" where
  "trimmed ds l r j = py_slice (rows (temporal ds)) (indptr ds ! j + l) (indptr ds ! Suc j - r)"

definition trim_offset :: "'a dataset \<Rightarrow> int \<Rightarrow> int \<Rightarrow> nat \<Rightarrow> int" where
  "trim_offset ds l r k = indptr ds ! k - int k * (l + r)"

text \<open>The rows \<^verbatim>\<open>append\<close> writes for group \<open>j\<close>.\<close>

definition appended :: "'a dataset \<Rightarrow> 'a dataset \<Rightarrow> nat \<Rightarrow> 'a list list" where
  "appended self futr j = series self j @ series futr j"

text \<open>The attributes the constructor computes from the offsets.\<close>

definition derived_fields :: "'a dataset \<Rightarrow> bool" where
  "derived_fields ds \<longleftrightarrow>
     2 \<le> length (indptr ds) \<and>
     n_groups ds = int (length (indptr ds)) - 1 \<and>
     max_size ds = np_max (np_diff (indptr ds)) \<and>
     min_size ds = np_min (np_diff (indptr ds))"

text \<open>
  The invariant of the offsets: \<open>n_groups + 1\<close> entries, the first one 0, non-decreasing,
  the last one the number of rows, and the rows of group \<open>i\<close> are the rows
  \<open>indptr[i], \<dots>, indptr[i + 1] - 1\<close> of the array.
\<close>

definition indptr_inv :: "'a dataset \<Rightarrow> bool" where
  "indptr_inv ds \<longleftrightarrow>
     int (length (indptr ds)) = n_groups ds + 1 \<and>
     np_index (indptr ds) 0 = Inr 0 \<and>
     sorted (indptr ds) \<and>
     np_index (indptr ds) (- 1) = Inr (int (nrows (temporal ds))) \<and>
     list_all (\<lambda>i. series ds i =
                 map (\<lambda>k. rows (temporal ds) ! k) [nat (indptr ds ! i)..<nat (indptr ds ! Suc i)])
       [0..<nat (n_groups ds)]"

text \<open>
  A well-formed dataset: the offsets satisfy their invariant, the derived attributes are
  those of the constructor, and the array is rectangular with one column for each name.
\<close>

definition wf_dataset :: "'a dataset \<Rightarrow> bool" where
  "wf_dataset ds \<longleftrightarrow>
     derived_fields ds \<and> indptr_inv ds \<and> wf_tensor (temporal ds) \<and>
     ncols (temporal ds) = length (temporal_cols ds)"

text \<open>
  The static features, when present, have a row \<open>idx\<close>: the condition under which
  \<^verbatim>\<open>self.static[idx, :]\<close> does not raise for \<open>0 \<le> idx\<close>.
\<close>

definition has_static_row :: "'a dataset \<Rightarrow> int \<Rightarrow> bool" where
  "has_static_row ds idx \<longleftrightarrow>
     (case static ds of None \<Rightarrow> True | Some s \<Rightarrow> idx < int (nrows s))"

text \<open>
  The datasets obtained from those of a set \<open>base\<close> by any number of calls of
  \<^verbatim>\<open>append\<close> and \<^verbatim>\<open>trim_dataset\<close>.
\<close>

inductive_set produced :: "'a \<Rightarrow> ('a::zero) dataset set \<Rightarrow> 'a dataset set"
  for u :: 'a and base :: "'a dataset set" where
  produced_base: "ds \<in> base \<Longrightarrow> ds \<in> produced u base"
| produced_append:
    "a \<in> produced u base \<Longrightarrow> b \<in> produced u base \<Longrightarrow> append u a b = Inr c \<Longrightarrow> c \<in> produced u base"
| produced_trim:
    "a \<in> produced u base \<Longrightarrow> trim_dataset a l r = Inr c \<Longrightarrow> c \<in> produced u base"



text \<open>
  The datasets obtained from those of a set \<open>base\<close> by \<^verbatim>\<open>append\<close> on datasets of the
  same width and \<^verbatim>\<open>trim_dataset\<close> with non-negative trims, each with the series it
  is to hold: \<^verbatim>\<open>append\<close> puts the series of the second dataset behind those of the
  first, \<^verbatim>\<open>trim_dataset\<close> drops \<open>l\<close> leading and \<open>r\<close> trailing rows of every series.
\<close>

inductive_set produced_series ::
  "'a \<Rightarrow> (('a::zero) dataset \<times> 'a list list list) set \<Rightarrow> ('a dataset \<times> 'a list list list) set"
  for u :: 'a and base :: "('a dataset \<times> 'a list list list) set" where
  series_base: "(ds, ss) \<in> base \<Longrightarrow> (ds, ss) \<in> produced_series u base"
| series_append:
    "(a, sa) \<in> produced_series u base \<Longrightarrow> (b, sb) \<in> produced_series u base \<Longrightarrow>
     ncols (temporal b) = ncols (temporal a) \<Longrightarrow> append u a b = Inr c \<Longrightarrow>
     (c, map2 (@) sa sb) \<in> produced_series u base"
| series_trim:
    "(a, sa) \<in> produced_series u base \<Longrightarrow> 0 \<le> l \<Longrightarrow> 0 \<le> r \<Longrightarrow>
     trim_dataset a l r = Inr c \<Longrightarrow>
     (c, map (\<lambda>s. drop (nat l) (take (length s - nat r) s)) sa) \<in> produced_series u base"

section \<open>Example data\<close>

text \<open>
  Two series with identifiers 1 and 2, of two rows and one row, with the columns
  \<^verbatim>\<open>y\<close> and \<^verbatim>\<open>available_mask\<close>.
\<close>

definition example_dataset :: "int dataset" where
  "example_dataset =
     \<lparr>temporal = \<lparr>ncols = 2, rows = [[4, 1], [5, 1], [7, 1]]\<rparr>,
      temporal_cols = [''y'', ''available_mask''], indptr = [0, 2, 3], n_groups = 2,
      static = None, static_cols = None, max_size = 2, min_size = 1, y_idx = 0,
      updated = False\<rparr>"

text \<open>Two series of three and four rows with the single column \<^verbatim>\<open>y\<close>.\<close>

definition example_long :: "int dataset" where
  "example_long =
     \<lparr>temporal = \<lparr>ncols = 1, rows = [[1], [2], [3], [4], [5], [6], [7]]\<rparr>,
      temporal_cols = [''y''], indptr = [0, 3, 7], n_groups = 2,
      static = None, static_cols = None, max_size = 4, min_size = 3, y_idx = 0,
      updated = False\<rparr>"

text \<open>
  Future observations for the two series of \<open>example_dataset\<close>; a dataset with three
  columns; a dataset with a single series.
\<close>

definition example_futr :: "int dataset" where
  "example_futr =
     \<lparr>temporal = \<lparr>ncols = 2, rows = [[8, 1], [9, 1], [10, 1]]\<rparr>,
      temporal_cols = [''y'', ''available_mask''], indptr = [0, 1, 3], n_groups = 2,
      static = None, static_cols = None, max_size = 2, min_size = 1, y_idx = 0,
      updated = False\<rparr>"



text \<open>Two data frames; \<^verbatim>\<open>from_df\<close> maps them to \<open>example_dataset\<close> and \<open>example_futr\<close>.\<close>

definition example_df :: "(nat option, nat, int) dataframe" where
  "example_df =
     \<lparr>value_cols = [''y''],
      records = [(Some 2, 1, [7]), (Some 1, 2, [5]), (Some 1, 1, [4])]\<rparr>"


text \<open>
  The result of appending \<open>example_futr\<close> to \<open>example_dataset\<close>, and of trimming one
  row on each side of it.
\<close>

definition example_appended :: "int dataset" where
  "example_appended =
     \<lparr>temporal = \<lparr>ncols = 2, rows = [[4, 1], [5, 1], [8, 1], [7, 1], [9, 1], [10, 1]]\<rparr>,
      temporal_cols = [''y'', ''available_mask''], indptr = [0, 3, 6], n_groups = 2,
      static = None, static_cols = None, max_size = 3, min_size = 3, y_idx = 0,
      updated = False\<rparr>"


text \<open>\<open>example_dataset\<close> with one static feature, and the items of its two groups.\<close>

definition example_static :: "int dataset" where
  "example_static =
     example_dataset\<lparr>static := Some \<lparr>ncols = 1, rows = [[10], [20]]\<rparr>,
                     static_cols := Some [''s'']\<rparr>"

definition example_items :: "int item list" where
  "example_items =
     [\<lparr>it_temporal = \<lparr>ncols = 2, rows = [[4, 5], [1, 1]]\<rparr>,
       it_temporal_cols = [''y'', ''available_mask''], it_static = Some [10],
       it_static_cols = Some [''s''], it_y_idx = 0\<rparr>,
      \<lparr>it_temporal = \<lparr>ncols = 2, rows = [[0, 7], [0, 1]]\<rparr>,
       it_temporal_cols = [''y'', ''available_mask''], it_static = Some [20],
       it_static_cols = Some [''s''], it_y_idx = 0\<rparr>]"

text \<open>
  A frame of static features with a record for the identifier 1 only, and the dataset
  \<^verbatim>\<open>from_df\<close> builds from \<open>example_df\<close> and that frame.
\<close>

definition example_short_static :: "(nat, int) static_frame" where
  "example_short_static = \<lparr>sf_cols = [''s''], sf_records = [(1, [10])]\<rparr>"

definition example_short :: "int dataset" where
  "example_short =
     example_dataset\<lparr>static := Some \<lparr>ncols = 1, rows = [[10]]\<rparr>,
                     static_cols := Some [''s'']\<rparr>"






text \<open>
  A store with three datasets: \<open>example_static\<close>, \<open>example_futr\<close> and
  \<open>example_long\<close>.
\<close>

definition example_store :: "int store" where
  "example_store =
     \<lparr>tensors = [temporal example_dataset, temporal example_futr, temporal example_long,
                 \<lparr>ncols = 1, rows = [[10], [20]]\<rparr>],
      arrays = [indptr example_dataset, indptr example_futr, indptr example_long],
      objects =
        [\<lparr>a_temporal = 0, a_temporal_cols = [''y'', ''available_mask''], a_indptr = 0,
          a_n_groups = 2, a_static = Some 3, a_static_cols = Some [''s''], a_max_size = 2,
          a_min_size = 1, a_y_idx = 0, a_updated = False\<rparr>,
         \<lparr>a_temporal = 1, a_temporal_cols = [''y'', ''available_mask''], a_indptr = 1,
          a_n_groups = 2, a_static = None, a_static_cols = None, a_max_size = 2,
          a_min_size = 1, a_y_idx = 0, a_updated = False\<rparr>,
         \<lparr>a_temporal = 2, a_temporal_cols = [''y''], a_indptr = 2,
          a_n_groups = 2, a_static = None, a_static_cols = None, a_max_size = 4,
          a_min_size = 3, a_y_idx = 0, a_updated = False\<rparr>]\<rparr>"


section \<open>Equality\<close>

text \<open>
  Claim C8. Comparing a dataset with a dataset, itself included, returns \<open>False\<close>:
  \<^verbatim>\<open>__eq__\<close> first asks the other object for an attribute \<^verbatim>\<open>data\<close>, and a
  \<^verbatim>\<open>TimeSeriesDataset\<close> stores its array under \<^verbatim>\<open>temporal\<close> and has no attribute
  of that name.
\<close>

theorem dataset_eq_never_true:
  "dataset_eq a (DatasetObj b) = Inr False \<and> dataset_eq a (DatasetObj a) = Inr False \<and>
   \<not> hasattr (DatasetObj b) ''data'' \<and> ''temporal'' \<in> set dataset_attrs"
  by (simp add: dataset_eq_def hasattr_def dataset_attrs_def)

theorem dataset_eq_never_true_witness:
  "dataset_eq
     \<lparr>temporal = \<lparr>ncols = 1, rows = [[4 :: int], [5]]\<rparr>, temporal_cols = [''y''],
      indptr = [0, 2], n_groups = 1, static = None, static_cols = None, max_size = 2,
      min_size = 2, y_idx = 0, updated = False\<rparr>
     (DatasetObj
       \<lparr>temporal = \<lparr>ncols = 1, rows = [[4 :: int], [5]]\<rparr>, temporal_cols = [''y''],
        indptr = [0, 2], n_groups = 1, static = None, static_cols = None, max_size = 2,
        min_size = 2, y_idx = 0, updated = False\<rparr>) = Inr False"
  using dataset_eq_never_true
    [of "\<lparr>temporal = \<lparr>ncols = 1, rows = [[4 :: int], [5]]\<rparr>, temporal_cols = [''y''],
          indptr = [0, 2], n_groups = 1, static = None, static_cols = None, max_size = 2,
          min_size = 2, y_idx = 0, updated = False\<rparr>"]
  by simp

section \<open>The availability mask\<close>

lemma and_then_Inr_iff:
  "and_then m f = Inr y \<longleftrightarrow> (\<exists>x. m = Inr x \<and> f x = Inr y)"
  by (cases m) (simp_all add: and_then_def)

lemma and_then_simps [simp]:
  "and_then (Inr x) f = f x"
  "and_then (Inl e) f = Inl e"
  by (simp_all add: and_then_def)

lemma map_option_as_torch_copy [simp]: "map_option as_torch_copy st = st"
  by (cases st) (simp_all add: as_torch_copy_def)

lemma init_Inr_fields:
  assumes "TimeSeriesDataset_init t cols ip y st sc = Inr ds"
  shows "temporal ds = t" "temporal_cols ds = cols" "indptr ds = ip" "y_idx ds = y"
    "static ds = st" "static_cols ds = sc" "updated ds = False"
    "n_groups ds = int (length ip) - 1" "max_size ds = np_max (np_diff ip)"
    "min_size ds = np_min (np_diff ip)" "np_diff ip \<noteq> []"
  using assms
  by (auto simp: TimeSeriesDataset_init_def Let_def as_torch_copy_def split: if_splits)

lemma ensure_available_mask_has_mask:
  "''available_mask'' \<in> set (snd (ensure_available_mask data cols))"
  by (simp add: ensure_available_mask_def)

lemma from_df_has_mask:
  assumes "from_df df sdf id_col time_col target_col = Inr ds"
  shows "''available_mask'' \<in> set (temporal_cols ds)"
proof -
  obtain st sc where e: "extract_static_features sdf id_col = (st, sc)"
    by (cases "extract_static_features sdf id_col")
  from assms e obtain ids data ip where
    p: "process_df df id_col time_col target_col = Inr (ids, data, ip)"
    and i: "(let temporal_cols0 =
                 target_col # filter (\<lambda>c. c \<notin> set [id_col, time_col, target_col])
                                (df_columns id_col time_col df);
               (temporal', temporal_cols') = ensure_available_mask data temporal_cols0
             in TimeSeriesDataset_init temporal' temporal_cols' ip 0 st sc) = Inr ds"
    by (auto simp: from_df_def and_then_Inr_iff)
  let ?c0 = "target_col # filter (\<lambda>c. c \<notin> set [id_col, time_col, target_col])
                                (df_columns id_col time_col df)"
  obtain t c where m: "ensure_available_mask data ?c0 = (t, c)"
    by (cases "ensure_available_mask data ?c0")
  from i m have "TimeSeriesDataset_init t c ip 0 st sc = Inr ds"
    by (simp add: Let_def)
  then have "temporal_cols ds = c"
    by (rule init_Inr_fields)
  moreover have "''available_mask'' \<in> set c"
    using ensure_available_mask_has_mask [of data ?c0] m by simp
  ultimately show ?thesis by simp
qed

text \<open>
  Claim C10. \<^verbatim>\<open>_ensure_available_mask\<close> returns its arguments unchanged when the
  column \<^verbatim>\<open>available_mask\<close> is among the names; otherwise it adds a last column of ones
  to the data and the name \<^verbatim>\<open>available_mask\<close> as the last name. Applying it to its own
  result changes nothing, and every dataset built by \<^verbatim>\<open>from_df\<close> has a column
  \<^verbatim>\<open>available_mask\<close>.
\<close>

theorem ensure_available_mask_idempotent:
  "(''available_mask'' \<in> set cols \<longrightarrow> ensure_available_mask data cols = (data, cols)) \<and>
   (''available_mask'' \<notin> set cols \<longrightarrow>
      ensure_available_mask data cols =
        (\<lparr>ncols = ncols data + 1, rows = map (\<lambda>r. r @ [1]) (rows data)\<rparr>,
         cols @ [''available_mask''])) \<and>
   (case ensure_available_mask data cols of
      (d, c) \<Rightarrow> ensure_available_mask d c = ensure_available_mask data cols) \<and>
   (from_df df sdf id_col time_col target_col = Inr ds \<longrightarrow>
      ''available_mask'' \<in> set (temporal_cols ds))"
  using from_df_has_mask [of df sdf id_col time_col target_col ds]
  by (simp add: ensure_available_mask_def)

theorem ensure_available_mask_idempotent_witness:
  "''available_mask'' \<notin> set [''y''] \<and>
   ensure_available_mask \<lparr>ncols = 1, rows = [[5 :: int], [6]]\<rparr> [''y''] =
     (\<lparr>ncols = 2, rows = [[5, 1], [6, 1]]\<rparr>, [''y'', ''available_mask'']) \<and>
   ''available_mask'' \<in> set [''y'', ''available_mask''] \<and>
   ensure_available_mask \<lparr>ncols = 2, rows = [[5 :: int, 1], [6, 1]]\<rparr> [''y'', ''available_mask''] =
     (\<lparr>ncols = 2, rows = [[5, 1], [6, 1]]\<rparr>, [''y'', ''available_mask'']) \<and>
   from_df \<lparr>value_cols = [''y''], records = [(Some (2 :: nat), 1 :: nat, [7 :: int]), (Some 1, 2, [5]), (Some 1, 1, [4])]\<rparr>
       None ''unique_id'' ''ds'' ''y'' =
     Inr \<lparr>temporal = \<lparr>ncols = 2, rows = [[4, 1], [5, 1], [7, 1]]\<rparr>,
          temporal_cols = [''y'', ''available_mask''], indptr = [0, 2, 3], n_groups = 2,
          static = None, static_cols = None, max_size = 2, min_size = 1, y_idx = 0,
          updated = False\<rparr> \<and>
   ''available_mask'' \<in> set (temporal_cols
      \<lparr>temporal = \<lparr>ncols = 2, rows = [[4, 1], [5, 1], [7 :: int, 1]]\<rparr>,
       temporal_cols = [''y'', ''available_mask''], indptr = [0, 2, 3], n_groups = 2,
       static = None, static_cols = None, max_size = 2, min_size = 1, y_idx = 0,
       updated = False\<rparr>)"
proof -
  let ?df = "\<lparr>value_cols = [''y''],
              records = [(Some (2 :: nat), 1 :: nat, [7 :: int]), (Some 1, 2, [5]), (Some 1, 1, [4])]\<rparr>"
  let ?ds = "\<lparr>temporal = \<lparr>ncols = 2, rows = [[4, 1], [5, 1], [7 :: int, 1]]\<rparr>,
              temporal_cols = [''y'', ''available_mask''], indptr = [0, 2, 3], n_groups = 2,
              static = None, static_cols = None, max_size = 2, min_size = 1, y_idx = 0,
              updated = False\<rparr>"
  have f: "from_df ?df None ''unique_id'' ''ds'' ''y'' = Inr ?ds"
    by code_simp
  have a: "''available_mask'' \<notin> set [''y'']"
    by simp
  show ?thesis
    using a f
      ensure_available_mask_idempotent [of "[''y'']" "\<lparr>ncols = 1, rows = [[5 :: int], [6]]\<rparr>"
        ?df None "''unique_id''" "''ds''" "''y''" ?ds]
      ensure_available_mask_idempotent [of "[''y'', ''available_mask'']"
        "\<lparr>ncols = 2, rows = [[5 :: int, 1], [6, 1]]\<rparr>" ?df None "''unique_id''" "''ds''" "''y''" ?ds]
    by simp
qed

section \<open>Indexing, slices and offsets\<close>

lemma np_index_nat: "i < length xs \<Longrightarrow> np_index xs (int i) = Inr (xs ! i)"
  by (simp add: np_index_def)

lemma np_index_Suc: "Suc i < length xs \<Longrightarrow> np_index xs (int i + 1) = Inr (xs ! Suc i)"
  using np_index_nat [of "Suc i" xs] by (simp add: add.commute)

lemma slice_bound_nat: "0 \<le> a \<Longrightarrow> a \<le> int n \<Longrightarrow> slice_bound n a = nat a"
  by (auto simp: slice_bound_def)

lemma py_slice_inner:
  assumes "0 \<le> a" "a \<le> b" "b \<le> int (length xs)"
  shows "py_slice xs a b = take (nat (b - a)) (drop (nat a) xs)"
proof -
  have "slice_bound (length xs) a = nat a" "slice_bound (length xs) b = nat b"
    using assms by (simp_all add: slice_bound_nat)
  moreover have "nat b - nat a = nat (b - a)"
    using assms by linarith
  ultimately show ?thesis
    by (simp add: py_slice_def)
qed

lemma length_py_slice_inner:
  assumes "0 \<le> a" "a \<le> b" "b \<le> int (length xs)"
  shows "length (py_slice xs a b) = nat (b - a)"
  using assms by (simp add: py_slice_inner)

lemma np_max_eq_Max: "xs \<noteq> [] \<Longrightarrow> np_max xs = Max (set xs)"
proof (cases xs)
  case (Cons a list)
  then show ?thesis using Max.set_eq_fold [of a list] by (simp add: np_max_def)
qed simp

lemma np_min_eq_Min: "xs \<noteq> [] \<Longrightarrow> np_min xs = Min (set xs)"
proof (cases xs)
  case (Cons a list)
  then show ?thesis using Min.set_eq_fold [of a list] by (simp add: np_min_def)
qed simp

lemma length_np_diff [simp]: "length (np_diff xs) = length xs - 1"
  by (simp add: np_diff_def)

lemma nth_np_diff: "Suc i < length xs \<Longrightarrow> np_diff xs ! i = xs ! Suc i - xs ! i"
  by (simp add: np_diff_def nth_tl)

lemma np_diff_nonempty:
  assumes "Suc i < length xs"
  shows "np_diff xs \<noteq> []"
proof
  assume "np_diff xs = []"
  then have "length (np_diff xs) = 0" by (simp only: list.size)
  then show False using assms by simp
qed

lemma np_diff_le_max:
  assumes "Suc i < length xs"
  shows "xs ! Suc i - xs ! i \<le> np_max (np_diff xs)"
proof -
  have "np_diff xs ! i \<in> set (np_diff xs)"
    using assms by (intro nth_mem) simp
  moreover have "np_diff xs \<noteq> []"
    using assms by (rule np_diff_nonempty)
  ultimately show ?thesis
    using assms by (simp add: np_max_eq_Max nth_np_diff)
qed

lemma np_diff_ge_min:
  assumes "Suc i < length xs"
  shows "np_min (np_diff xs) \<le> xs ! Suc i - xs ! i"
proof -
  have "np_diff xs ! i \<in> set (np_diff xs)"
    using assms by (intro nth_mem) simp
  moreover have "np_diff xs \<noteq> []"
    using assms by (rule np_diff_nonempty)
  ultimately show ?thesis
    using assms by (simp add: np_min_eq_Min nth_np_diff)
qed

lemma indptr_facts:
  assumes "derived_fields ds" "indptr_inv ds" "i < nat (n_groups ds)"
  shows "Suc i < length (indptr ds)" "0 \<le> indptr ds ! i" "indptr ds ! i \<le> indptr ds ! Suc i"
    "indptr ds ! Suc i \<le> int (nrows (temporal ds))"
proof -
  let ?ip = "indptr ds"
  show len: "Suc i < length ?ip"
    using assms by (simp add: derived_fields_def)
  have s: "sorted ?ip" and z: "?ip ! 0 = 0" and l: "?ip ! (length ?ip - 1) = int (nrows (temporal ds))"
    using assms len by (auto simp: indptr_inv_def np_index_def nat_diff_distrib split: if_splits)
  have "?ip ! 0 \<le> ?ip ! i"
    using s len by (intro sorted_nth_mono) simp_all
  then show "0 \<le> ?ip ! i" using z by simp
  show "?ip ! i \<le> ?ip ! Suc i"
    using s len by (intro sorted_nth_mono) simp_all
  have "?ip ! Suc i \<le> ?ip ! (length ?ip - 1)"
    using s len by (intro sorted_nth_mono) simp_all
  then show "?ip ! Suc i \<le> int (nrows (temporal ds))" using l by simp
qed


section \<open>Padded windows\<close>

lemma expand_same:
  "nrows v = r \<Longrightarrow> ncols v = c \<Longrightarrow> expand v r c = Some (rows v)"
  by (simp add: expand_def)

lemma set_block_pad:
  assumes "0 < L" "L \<le> M" "nrows v = C" "ncols v = L"
  shows "set_block \<lparr>ncols = M, rows = replicate C (replicate M x)\<rparr> (int C) (- int L) v =
           Inr \<lparr>ncols = M, rows = map (\<lambda>new. replicate (M - L) x @ new) (rows v)\<rparr>"
proof -
  have lo: "slice_bound M (- int L) = M - L"
    using assms by (simp add: slice_bound_def)
  have rk: "slice_bound C (int C) = C"
    by (simp add: slice_bound_def)
  have k: "M - (M - L) = L"
    using assms by simp
  have z: "zip (replicate C (replicate M x)) (rows v) = map (Pair (replicate M x)) (rows v)"
    using assms by (simp add: zip_replicate1 nrows_def)
  show ?thesis
    using assms
    by (simp add: set_block_def nrows_def lo rk k expand_same z comp_def min_absorb2)
qed

lemma getitem_closed:
  assumes wf: "wf_dataset ds" and st: "has_static_row ds (int i)"
    and ne: "indptr ds ! i < indptr ds ! Suc i" and i: "i < nat (n_groups ds)"
  shows "\<exists>item. getitem ds (IntIdx (int i)) = Inr item \<and>
           it_temporal item =
             \<lparr>ncols = nat (max_size ds),
              rows = map (\<lambda>c. replicate (nat (max_size ds) - length (series ds i)) 0
                               @ map (\<lambda>r. r ! c) (series ds i))
                       [0..<length (temporal_cols ds)]\<rparr>"
proof -
  let ?ip = "indptr ds"
  let ?C = "length (temporal_cols ds)"
  let ?ts = "slice_rows (temporal ds) (?ip ! i) (?ip ! Suc i)"
  have d: "derived_fields ds" and v: "indptr_inv ds" and c: "ncols (temporal ds) = ?C"
    using wf by (simp_all add: wf_dataset_def)
  note f = indptr_facts [OF d v i]
  have i0: "np_index ?ip (int i) = Inr (?ip ! i)"
    using f(1) by (intro np_index_nat) simp
  have i1: "np_index ?ip (int i + 1) = Inr (?ip ! Suc i)"
    using f(1) by (rule np_index_Suc)
  have rts: "rows ?ts = series ds i"
    by (simp add: slice_rows_def series_def)
  have cts: "ncols ?ts = ?C"
    using c by (simp add: slice_rows_def)
  have len: "int (length (series ds i)) = ?ip ! Suc i - ?ip ! i"
    using f by (simp add: series_def length_py_slice_inner nrows_def)
  have nts: "nrows ?ts = length (series ds i)"
    by (simp add: nrows_def rts)
  have pos: "0 < length (series ds i)"
    using len ne by linarith
  have mx: "int (length (series ds i)) \<le> max_size ds"
    using np_diff_le_max [OF f(1)] d len by (simp add: derived_fields_def)
  obtain s' where s': "(case static ds of None \<Rightarrow> Inr None
             | Some s \<Rightarrow> and_then (np_index (rows s) (int i)) (\<lambda>r. Inr (Some r))) = Inr s'"
  proof (cases "static ds")
    case None
    then show ?thesis using that by simp
  next
    case (Some s)
    then have "i < length (rows s)"
      using st by (simp add: has_static_row_def nrows_def)
    then have "np_index (rows s) (int i) = Inr (rows s ! i)"
      by (rule np_index_nat)
    then show ?thesis using that Some by simp
  qed
  let ?closed = "\<lparr>ncols = nat (max_size ds),
              rows = map (\<lambda>c. replicate (nat (max_size ds) - length (series ds i)) (0::'a)
                               @ map (\<lambda>r. r ! c) (series ds i))
                       [0..<?C]\<rparr>"
  have t: "(if (int ?C, max_size ds) = (int (ncols ?ts), int (nrows ?ts))
             then Inr (permute10 ?ts)
             else and_then (zeros (int ?C) (max_size ds)) (\<lambda>z.
                    set_block z (int ?C) (- int (nrows ?ts)) (permute10 ?ts))) = Inr ?closed"
  proof (cases "max_size ds = int (length (series ds i))")
    case True
    then show ?thesis
      by (simp add: cts nts permute10_def rts)
  next
    case False
    have z: "zeros (int ?C) (max_size ds) =
        Inr \<lparr>ncols = nat (max_size ds), rows = replicate ?C (replicate (nat (max_size ds)) (0::'a))\<rparr>"
      using mx by (simp add: zeros_def filled_def)
    have le: "length (series ds i) \<le> nat (max_size ds)"
      using mx by linarith
    have p: "nrows (permute10 ?ts) = ?C" "ncols (permute10 ?ts) = length (series ds i)"
      by (simp_all add: permute10_def nrows_def cts rts)
    have "set_block \<lparr>ncols = nat (max_size ds), rows = replicate ?C (replicate (nat (max_size ds)) (0::'a))\<rparr>
            (int ?C) (- int (length (series ds i))) (permute10 ?ts) =
          Inr \<lparr>ncols = nat (max_size ds),
               rows = map (\<lambda>new. replicate (nat (max_size ds) - length (series ds i)) 0 @ new)
                        (rows (permute10 ?ts))\<rparr>"
      using pos le p by (rule set_block_pad)
    then show ?thesis
      using False by (simp add: z cts nts permute10_def rts comp_def)
  qed
  show ?thesis
    unfolding getitem_def
    by (simp only: index.case i0 i1 and_then_simps Let_def t s') simp
qed


lemma sizes_positive:
  assumes "list_all (\<lambda>d. 0 < d) (np_diff xs)" "Suc i < length xs"
  shows "xs ! i < xs ! Suc i"
proof -
  have "np_diff xs ! i \<in> set (np_diff xs)"
    using assms(2) by (intro nth_mem) simp
  then have "0 < np_diff xs ! i"
    using assms(1) by (simp add: list_all_iff)
  then show ?thesis
    using assms(2) by (simp add: nth_np_diff)
qed

text \<open>
  The claim that \<^verbatim>\<open>__getitem__(idx)\<close> returns an item for every dataset with non-empty
  series and every \<open>0 \<le> idx < n_groups\<close> fails when the array of static features has
  fewer rows than the dataset has groups: \<^verbatim>\<open>self.static[idx, :]\<close> raises
  \<^verbatim>\<open>IndexError\<close>. Neither the constructor nor \<^verbatim>\<open>from_df\<close> compares the static
  features with the groups; here \<^verbatim>\<open>from_df\<close> receives two series and static features
  for one identifier.
\<close>

theorem getitem_short_static_raises:
  "from_df example_df (Some example_short_static) ''unique_id'' ''ds'' ''y'' = Inr example_short \<and>
   wf_dataset example_short \<and>
   list_all (\<lambda>d. 0 < d) (np_diff (indptr example_short)) \<and>
   n_groups example_short = 2 \<and>
   getitem example_short (IntIdx 1) = Inl IndexError"
  by code_simp

text \<open>
  Claim C1, amended. For a well-formed dataset whose series are all non-empty and whose
  static features, if any, have a row \<open>idx\<close>, and an integer \<open>idx\<close> with
  \<open>0 \<le> idx < n_groups\<close>, \<^verbatim>\<open>__getitem__(idx)\<close> returns an item whose
  \<^verbatim>\<open>temporal\<close> entry has the shape \<open>(len(temporal_cols), max_size)\<close>; with \<open>L\<close> the
  number \<open>indptr[idx + 1] - indptr[idx]\<close> of rows of series \<open>idx\<close>, the last \<open>L\<close>
  columns hold the transposed rows of the series and every earlier column is zero.
\<close>

theorem getitem_left_padded:
  assumes "wf_dataset ds" and "has_static_row ds idx"
    and "list_all (\<lambda>d. 0 < d) (np_diff (indptr ds))"
    and "0 \<le> idx" and "idx < n_groups ds"
  shows "\<exists>item. getitem ds (IntIdx idx) = Inr item \<and>
           nrows (it_temporal item) = length (temporal_cols ds) \<and>
           int (ncols (it_temporal item)) = max_size ds \<and>
           wf_tensor (it_temporal item) \<and>
           int (length (series ds (nat idx))) = indptr ds ! Suc (nat idx) - indptr ds ! nat idx \<and>
           length (series ds (nat idx)) \<le> ncols (it_temporal item) \<and>
           (\<forall>c<length (temporal_cols ds). \<forall>j<ncols (it_temporal item).
              rows (it_temporal item) ! c ! j =
                (if j < ncols (it_temporal item) - length (series ds (nat idx)) then 0
                 else series ds (nat idx)
                        ! (j - (ncols (it_temporal item) - length (series ds (nat idx)))) ! c))"
proof -
  let ?i = "nat idx"
  let ?S = "series ds ?i"
  let ?M = "nat (max_size ds)"
  have i: "?i < nat (n_groups ds)"
    using assms(4,5) by linarith
  have d: "derived_fields ds" and v: "indptr_inv ds"
    using assms(1) by (simp_all add: wf_dataset_def)
  note f = indptr_facts [OF d v i]
  have ne: "indptr ds ! ?i < indptr ds ! Suc ?i"
    using assms(3) f(1) by (rule sizes_positive)
  obtain item where g: "getitem ds (IntIdx (int ?i)) = Inr item"
    and t: "it_temporal item =
             \<lparr>ncols = ?M,
              rows = map (\<lambda>c. replicate (?M - length ?S) 0 @ map (\<lambda>r. r ! c) ?S)
                       [0..<length (temporal_cols ds)]\<rparr>"
    using getitem_closed [OF assms(1) _ ne i] assms(2,4) by auto
  have len: "int (length ?S) = indptr ds ! Suc ?i - indptr ds ! ?i"
    using f by (simp add: series_def length_py_slice_inner nrows_def)
  have mx: "int (length ?S) \<le> max_size ds"
    using np_diff_le_max [OF f(1)] d len by (simp add: derived_fields_def)
  then have le: "length ?S \<le> ?M"
    by linarith
  have "getitem ds (IntIdx idx) = Inr item"
    using g assms(4) by simp
  moreover have "nrows (it_temporal item) = length (temporal_cols ds)"
    by (simp add: t nrows_def)
  moreover have "int (ncols (it_temporal item)) = max_size ds"
    using mx by (simp add: t)
  moreover have "wf_tensor (it_temporal item)"
    using le by (simp add: t wf_tensor_def list_all_iff)
  moreover have "length ?S \<le> ncols (it_temporal item)"
    using le by (simp add: t)
  moreover have "\<forall>c<length (temporal_cols ds). \<forall>j<ncols (it_temporal item).
              rows (it_temporal item) ! c ! j =
                (if j < ncols (it_temporal item) - length ?S then 0
                 else ?S ! (j - (ncols (it_temporal item) - length ?S)) ! c)"
  proof (intro allI impI)
    fix c j
    assume c: "c < length (temporal_cols ds)" and j: "j < ncols (it_temporal item)"
    then have "j - (?M - length ?S) < length ?S" if "\<not> j < ?M - length ?S"
      using that le by (simp add: t) linarith
    then show "rows (it_temporal item) ! c ! j =
                (if j < ncols (it_temporal item) - length ?S then 0
                 else ?S ! (j - (ncols (it_temporal item) - length ?S)) ! c)"
      using c by (simp add: t nth_append)
  qed
  ultimately show ?thesis
    using len by blast
qed

theorem getitem_left_padded_witness:
  "wf_dataset example_static \<and> has_static_row example_static 1 \<and>
   list_all (\<lambda>d. 0 < d) (np_diff (indptr example_static)) \<and>
   1 < n_groups example_static \<and>
   getitem example_static (IntIdx 1) =
     Inr \<lparr>it_temporal = \<lparr>ncols = 2, rows = [[0, 7], [0, 1]]\<rparr>,
          it_temporal_cols = [''y'', ''available_mask''], it_static = Some [20],
          it_static_cols = Some [''s''], it_y_idx = 0\<rparr> \<and>
   (\<exists>item. getitem example_static (IntIdx 1) = Inr item \<and>
      nrows (it_temporal item) = length (temporal_cols example_static) \<and>
      int (ncols (it_temporal item)) = max_size example_static \<and>
      wf_tensor (it_temporal item) \<and>
      int (length (series example_static (nat 1))) =
        indptr example_static ! Suc (nat 1) - indptr example_static ! nat 1 \<and>
      length (series example_static (nat 1)) \<le> ncols (it_temporal item) \<and>
      (\<forall>c<length (temporal_cols example_static). \<forall>j<ncols (it_temporal item).
         rows (it_temporal item) ! c ! j =
           (if j < ncols (it_temporal item) - length (series example_static (nat 1)) then 0
            else series example_static (nat 1)
                   ! (j - (ncols (it_temporal item) - length (series example_static (nat 1))))
                   ! c)))"
proof -
  have h1: "wf_dataset example_static"
    by code_simp
  have h2: "has_static_row example_static 1"
    by code_simp
  have h3: "list_all (\<lambda>d. 0 < d) (np_diff (indptr example_static))"
    by code_simp
  have h4: "(0 :: int) \<le> 1"
    by simp
  have h5: "1 < n_groups example_static"
    by code_simp
  have e: "getitem example_static (IntIdx 1) =
     Inr \<lparr>it_temporal = \<lparr>ncols = 2, rows = [[0, 7], [0, 1]]\<rparr>,
          it_temporal_cols = [''y'', ''available_mask''], it_static = Some [20],
          it_static_cols = Some [''s''], it_y_idx = 0\<rparr>"
    by code_simp
  show ?thesis
    by (intro conjI h1 h2 h3 h5 e getitem_left_padded [OF h1 h2 h3 h4 h5])
qed

section \<open>Trimming\<close>

lemma set_rows_inner:
  assumes "0 \<le> a" "b = a + int (nrows v)" "ncols v = ncols tgt" "nat a + nrows v \<le> nrows tgt"
  shows "set_rows tgt a b v =
           Inr (tgt\<lparr>rows := take (nat a) (rows tgt) @ rows v @ drop (nat a + nrows v) (rows tgt)\<rparr>)"
proof -
  have lo: "slice_bound (nrows tgt) a = nat a"
    using assms by (intro slice_bound_nat) simp_all
  have hi: "slice_bound (nrows tgt) b = nat a + nrows v"
    using assms by (simp add: slice_bound_nat nat_add_distrib)
  show ?thesis
    using assms(3) by (simp add: set_rows_def lo hi expand_same Let_def)
qed

lemma steps_mono:
  fixes g :: "nat \<Rightarrow> int"
  assumes "\<And>j. j < n \<Longrightarrow> g j \<le> g (Suc j)" "k \<le> m" "m \<le> n"
  shows "g k \<le> g m"
  using assms(2,3)
proof (induction m)
  case 0
  then show ?case by simp
next
  case (Suc m)
  show ?case
  proof (cases "k = Suc m")
    case True
    then show ?thesis by simp
  next
    case False
    then have "g k \<le> g m" using Suc by simp
    moreover have "g m \<le> g (Suc m)" using assms(1) Suc.prems by simp
    ultimately show ?thesis by simp
  qed
qed

lemma concat_segment:
  assumes "i < n"
    and "length (concat (map seg [0..<i])) = a"
    and "length (seg i) = b - a"
  shows "take (b - a) (drop a (concat (map seg [0..<n]))) = seg i"
proof -
  have "[0..<n] = [0..<i] @ i # [Suc i..<n]"
    using assms(1) by (metis le_add1 le_add_same_cancel1 less_imp_add_positive upt_add_eq_append upt_conv_Cons)
  then have "concat (map seg [0..<n]) =
      concat (map seg [0..<i]) @ seg i @ concat (map seg [Suc i..<n])"
    by simp
  then show ?thesis
    using assms(2,3) by simp
qed

lemma trim_loop_append:
  "trim_loop ds l r (xs @ ys) st = and_then (trim_loop ds l r xs st) (trim_loop ds l r ys)"
proof (induction xs arbitrary: st)
  case Nil
  then show ?case by simp
next
  case (Cons x xs)
  obtain t a ip where st: "st = (t, a, ip)" by (cases st)
  show ?case
    unfolding st
    by (simp add: Cons and_then_def Let_def split: sum.splits)
qed


lemma derived_n_groups:
  assumes "derived_fields ds"
  shows "length (indptr ds) = Suc (nat (n_groups ds))" "int (nat (n_groups ds)) = n_groups ds"
    "0 < nat (n_groups ds)" "indptr ds \<noteq> []"
  using assms by (auto simp: derived_fields_def)

lemma indptr_ends:
  assumes "derived_fields ds" "indptr_inv ds"
  shows "indptr ds ! 0 = 0" "indptr ds ! nat (n_groups ds) = int (nrows (temporal ds))"
  using assms derived_n_groups [OF assms(1)]
  by (auto simp: indptr_inv_def np_index_def split: if_splits)

lemma trim_offset_Suc:
  "trim_offset ds l r (Suc k) =
     trim_offset ds l r k + (indptr ds ! Suc k - indptr ds ! k - l - r)"
  by (simp add: trim_offset_def algebra_simps)

lemma trim_group_facts:
  assumes "wf_dataset ds" "0 \<le> l" "0 \<le> r" "l + r < min_size ds" "j < nat (n_groups ds)"
  shows "Suc j < length (indptr ds)"
    and "l + r < indptr ds ! Suc j - indptr ds ! j"
    and "length (trimmed ds l r j) = nat (indptr ds ! Suc j - indptr ds ! j - l - r)"
    and "trim_offset ds l r j \<le> trim_offset ds l r (Suc j)"
proof -
  have d: "derived_fields ds" and v: "indptr_inv ds"
    using assms(1) by (simp_all add: wf_dataset_def)
  note f = indptr_facts [OF d v assms(5)]
  show "Suc j < length (indptr ds)" by (rule f(1))
  show g: "l + r < indptr ds ! Suc j - indptr ds ! j"
    using np_diff_ge_min [OF f(1)] d assms(4) by (simp add: derived_fields_def)
  have "length (trimmed ds l r j) = nat (indptr ds ! Suc j - r - (indptr ds ! j + l))"
    unfolding trimmed_def using f g assms(2,3)
    by (intro length_py_slice_inner) (simp_all add: nrows_def)
  then show "length (trimmed ds l r j) = nat (indptr ds ! Suc j - indptr ds ! j - l - r)"
    by (simp add: algebra_simps)
  show "trim_offset ds l r j \<le> trim_offset ds l r (Suc j)"
    using g by (simp add: trim_offset_Suc)
qed

lemma trim_offset_bounds:
  assumes "wf_dataset ds" "0 \<le> l" "0 \<le> r" "l + r < min_size ds" "k \<le> nat (n_groups ds)"
  shows "0 \<le> trim_offset ds l r k"
    and "trim_offset ds l r k \<le> int (nrows (temporal ds)) - (l + r) * n_groups ds"
proof -
  let ?n = "nat (n_groups ds)"
  have d: "derived_fields ds" and v: "indptr_inv ds"
    using assms(1) by (simp_all add: wf_dataset_def)
  note z = indptr_ends(1) [OF d v] and e = indptr_ends(2) [OF d v]
  have step: "\<And>j. j < ?n \<Longrightarrow> trim_offset ds l r j \<le> trim_offset ds l r (Suc j)"
    using assms(1-4) by (rule trim_group_facts(4))
  have "trim_offset ds l r 0 \<le> trim_offset ds l r k"
    by (rule steps_mono [where g = "trim_offset ds l r" and n = ?n, OF step]) (use assms(5) in simp_all)
  then show "0 \<le> trim_offset ds l r k"
    using z by (simp add: trim_offset_def)
  have "trim_offset ds l r k \<le> trim_offset ds l r ?n"
    by (rule steps_mono [where g = "trim_offset ds l r" and n = ?n, OF step]) (use assms(5) in simp_all)
  moreover have "int ?n = n_groups ds"
    using d by (rule derived_n_groups)
  ultimately show "trim_offset ds l r k \<le> int (nrows (temporal ds)) - (l + r) * n_groups ds"
    using e by (simp add: trim_offset_def mult.commute)
qed

lemma length_concat_trimmed:
  assumes "wf_dataset ds" "0 \<le> l" "0 \<le> r" "l + r < min_size ds" "k \<le> nat (n_groups ds)"
  shows "length (concat (map (trimmed ds l r) [0..<k])) = nat (trim_offset ds l r k)"
  using assms(5)
proof (induction k)
  case 0
  have "trim_offset ds l r 0 = 0"
    using indptr_ends(1) [of ds] assms(1) by (simp add: trim_offset_def wf_dataset_def)
  then show ?case by simp
next
  case (Suc k)
  then have k: "k < nat (n_groups ds)" by simp
  note g = trim_group_facts [OF assms(1-4) k]
  have "0 \<le> trim_offset ds l r k"
    using assms(1-4) Suc.prems by (intro trim_offset_bounds(1)) simp_all
  then show ?case
    using Suc g(2) by (simp add: g(3) trim_offset_Suc nat_add_distrib)
qed


lemma trim_loop_upto:
  assumes wf: "wf_dataset ds" and l: "0 \<le> l" and r: "0 \<le> r" and m: "l + r < min_size ds"
    and k: "k \<le> nat (n_groups ds)"
    and Z: "int (length Z) = int (nrows (temporal ds)) - (l + r) * n_groups ds"
  shows "trim_loop ds l r [0..<k] (\<lparr>ncols = ncols (temporal ds), rows = Z\<rparr>, 0, [0]) =
     Inr (\<lparr>ncols = ncols (temporal ds),
           rows = concat (map (trimmed ds l r) [0..<k]) @ drop (nat (trim_offset ds l r k)) Z\<rparr>,
          trim_offset ds l r k, map (trim_offset ds l r) [0..<Suc k])"
  using k
proof (induction k)
  case 0
  have "trim_offset ds l r 0 = 0"
    using indptr_ends(1) [of ds] wf by (simp add: trim_offset_def wf_dataset_def)
  then show ?case by simp
next
  case (Suc k)
  then have k: "k < nat (n_groups ds)" and k': "k \<le> nat (n_groups ds)" by simp_all
  let ?P = "concat (map (trimmed ds l r) [0..<k])"
  let ?a = "trim_offset ds l r k"
  let ?t = "\<lparr>ncols = ncols (temporal ds), rows = ?P @ drop (nat ?a) Z\<rparr>"
  define v where "v = slice_rows (temporal ds) (indptr ds ! k + l) (indptr ds ! Suc k - r)"
  let ?nl = "indptr ds ! Suc k - indptr ds ! k - l - r"
  note g = trim_group_facts [OF wf l r m k]
  note b = trim_offset_bounds [OF wf l r m k']
  note b' = trim_offset_bounds [OF wf l r m Suc.prems]
  have lenP: "length ?P = nat ?a"
    using wf l r m k' by (rule length_concat_trimmed)
  have i1: "np_index (indptr ds) (int k + 1) = Inr (indptr ds ! Suc k)"
    using g(1) by (rule np_index_Suc)
  have i0: "np_index (indptr ds) (int k) = Inr (indptr ds ! k)"
    using g(1) by (intro np_index_nat) simp
  have rv: "rows v = trimmed ds l r k" and cv: "ncols v = ncols ?t"
    by (simp_all add: v_def slice_rows_def trimmed_def)
  have nv: "nrows v = nat ?nl"
    by (simp add: nrows_def rv g(3))
  have nl: "0 \<le> ?nl"
    using g(2) by simp
  have nt: "nrows ?t = length Z"
    using lenP b Z by (simp add: nrows_def)
  have off: "nat (trim_offset ds l r (Suc k)) = nat ?a + nat ?nl"
    using b(1) nl by (simp add: trim_offset_Suc nat_add_distrib)
  have fits: "nat ?a + nrows v \<le> nrows ?t"
    using b'(2) b'(1) Z unfolding nt nv off [symmetric] by linarith
  have "set_rows ?t ?a (?a + ?nl) v =
      Inr (?t\<lparr>rows := take (nat ?a) (rows ?t) @ rows v @ drop (nat ?a + nrows v) (rows ?t)\<rparr>)"
    using b(1) _ cv fits by (rule set_rows_inner) (use nl in \<open>simp add: nv\<close>)
  moreover have "take (nat ?a) (rows ?t) @ rows v @ drop (nat ?a + nrows v) (rows ?t) =
      concat (map (trimmed ds l r) [0..<Suc k]) @ drop (nat (trim_offset ds l r (Suc k))) Z"
    using lenP by (simp add: rv nv off add.commute)
  ultimately have step: "set_rows ?t ?a (?a + ?nl)
        (slice_rows (temporal ds) (indptr ds ! k + l) (indptr ds ! Suc k - r)) =
      Inr \<lparr>ncols = ncols (temporal ds),
           rows = concat (map (trimmed ds l r) [0..<Suc k])
                    @ drop (nat (trim_offset ds l r (Suc k))) Z\<rparr>"
    by (simp add: v_def)
  have "trim_loop ds l r [0..<Suc k] (\<lparr>ncols = ncols (temporal ds), rows = Z\<rparr>, 0, [0]) =
      trim_loop ds l r [k] (?t, ?a, map (trim_offset ds l r) [0..<Suc k])"
    by (simp only: upt_Suc_append [OF le0] trim_loop_append Suc.IH [OF k'] and_then_simps)
  also have "\<dots> = Inr (\<lparr>ncols = ncols (temporal ds),
           rows = concat (map (trimmed ds l r) [0..<Suc k])
                    @ drop (nat (trim_offset ds l r (Suc k))) Z\<rparr>,
          trim_offset ds l r (Suc k), map (trim_offset ds l r) [0..<Suc (Suc k)])"
    by (simp add: i0 i1 Let_def step trim_offset_Suc del: upt_Suc) (simp add: trim_offset_Suc)
  finally show ?case .
qed


lemma series_inner:
  assumes "derived_fields ds" "indptr_inv ds" "i < nat (n_groups ds)"
  shows "series ds i =
           take (nat (indptr ds ! Suc i) - nat (indptr ds ! i))
             (drop (nat (indptr ds ! i)) (rows (temporal ds)))"
    and "int (length (series ds i)) = indptr ds ! Suc i - indptr ds ! i"
proof -
  note f = indptr_facts [OF assms]
  have "nat (indptr ds ! Suc i - indptr ds ! i) = nat (indptr ds ! Suc i) - nat (indptr ds ! i)"
    using f by linarith
  then show "series ds i =
           take (nat (indptr ds ! Suc i) - nat (indptr ds ! i))
             (drop (nat (indptr ds ! i)) (rows (temporal ds)))"
    using f by (simp add: series_def py_slice_inner nrows_def)
  show "int (length (series ds i)) = indptr ds ! Suc i - indptr ds ! i"
    using f by (simp add: series_def length_py_slice_inner nrows_def)
qed

lemma trimmed_eq:
  assumes "wf_dataset ds" "0 \<le> l" "0 \<le> r" "l + r < min_size ds" "i < nat (n_groups ds)"
  shows "trimmed ds l r i =
           drop (nat l) (take (length (series ds i) - nat r) (series ds i))"
proof -
  have d: "derived_fields ds" and v: "indptr_inv ds"
    using assms(1) by (simp_all add: wf_dataset_def)
  note f = indptr_facts [OF d v assms(5)]
  note g = trim_group_facts [OF assms]
  note s = series_inner [OF d v assms(5)]
  define A B L R where "A = nat (indptr ds ! i)" and "B = nat (indptr ds ! Suc i)"
    and "L = nat l" and "R = nat r"
  have len: "length (series ds i) = B - A"
    using s(2) f unfolding A_def B_def by linarith
  have t: "trimmed ds l r i = take (B - R - (A + L)) (drop (A + L) (rows (temporal ds)))"
  proof -
    have "nat (indptr ds ! Suc i - r - (indptr ds ! i + l)) = B - R - (A + L)"
      and "nat (indptr ds ! i + l) = A + L"
      using f g(2) assms(2,3) unfolding A_def B_def L_def R_def by linarith+
    moreover have "trimmed ds l r i =
        take (nat (indptr ds ! Suc i - r - (indptr ds ! i + l)))
          (drop (nat (indptr ds ! i + l)) (rows (temporal ds)))"
      unfolding trimmed_def using f g(2) assms(2,3)
      by (intro py_slice_inner) (simp_all add: nrows_def)
    ultimately show ?thesis by simp
  qed
  have "drop L (take (B - A - R) (take (B - A) (drop A (rows (temporal ds))))) =
      take (B - R - (A + L)) (drop (A + L) (rows (temporal ds)))"
    by (simp add: drop_take min_def add.commute) (metis diff_commute diff_diff_left)
  then show ?thesis
    using s(1) unfolding t len A_def [symmetric] B_def [symmetric] L_def [symmetric]
      R_def [symmetric] by simp
qed


lemma init_Inr_ex:
  "np_diff ip \<noteq> [] \<Longrightarrow> \<exists>ds. TimeSeriesDataset_init t c ip y st sc = Inr ds"
  by (simp add: TimeSeriesDataset_init_def Let_def)

lemma trim_dataset_closed:
  assumes wf: "wf_dataset ds" and l: "0 \<le> l" and r: "0 \<le> r" and m: "l + r < min_size ds"
  shows "\<exists>ds'. trim_dataset ds l r = Inr ds' \<and>
           temporal ds' = \<lparr>ncols = ncols (temporal ds),
                            rows = concat (map (trimmed ds l r) [0..<nat (n_groups ds)])\<rparr> \<and>
           indptr ds' = map (trim_offset ds l r) [0..<Suc (nat (n_groups ds))] \<and>
           n_groups ds' = n_groups ds"
proof -
  let ?n = "nat (n_groups ds)"
  let ?N = "int (nrows (temporal ds))"
  let ?Z = "replicate (nat (?N - (l + r) * n_groups ds)) (replicate (ncols (temporal ds)) (0::'a))"
  have d: "derived_fields ds" and v: "indptr_inv ds"
    using wf by (simp_all add: wf_dataset_def)
  note n = derived_n_groups [OF d]
  note b = trim_offset_bounds [OF wf l r m order_refl]
  have offn: "trim_offset ds l r ?n = ?N - (l + r) * n_groups ds"
    using indptr_ends(2) [OF d v] n(2) by (simp add: trim_offset_def mult.commute)
  have z: "zeros (?N - (l + r) * n_groups ds) (int (ncols (temporal ds))) =
      Inr \<lparr>ncols = ncols (temporal ds), rows = ?Z\<rparr>"
    using b offn by (simp add: zeros_def filled_def)
  have Z: "int (length ?Z) = ?N - (l + r) * n_groups ds"
    using b offn by simp
  have loop: "trim_loop ds l r [0..<?n] (\<lparr>ncols = ncols (temporal ds), rows = ?Z\<rparr>, 0, [0]) =
     Inr (\<lparr>ncols = ncols (temporal ds),
           rows = concat (map (trimmed ds l r) [0..<?n]) @ drop (nat (trim_offset ds l r ?n)) ?Z\<rparr>,
          trim_offset ds l r ?n, map (trim_offset ds l r) [0..<Suc ?n])"
    using wf l r m order_refl Z by (rule trim_loop_upto)
  have dr: "drop (nat (trim_offset ds l r ?n)) ?Z = []"
    by (simp add: offn)
  have ne: "np_diff (map (trim_offset ds l r) [0..<Suc ?n]) \<noteq> []"
    by (rule np_diff_nonempty [where i = 0]) (use n(3) in simp)
  have "\<not> min_size ds \<le> l + r"
    using m by simp
  then have e: "trim_dataset ds l r =
      TimeSeriesDataset_init
        \<lparr>ncols = ncols (temporal ds), rows = concat (map (trimmed ds l r) [0..<?n])\<rparr>
        (temporal_cols ds) (map (trim_offset ds l r) [0..<Suc ?n]) (y_idx ds) (static ds)
        (static_cols ds)"
    unfolding trim_dataset_def
    by (simp only: if_False Let_def z and_then_simps loop dr append_Nil2 prod.case)
  obtain ds' where i: "TimeSeriesDataset_init
        \<lparr>ncols = ncols (temporal ds), rows = concat (map (trimmed ds l r) [0..<?n])\<rparr>
        (temporal_cols ds) (map (trim_offset ds l r) [0..<Suc ?n]) (y_idx ds) (static ds)
        (static_cols ds) = Inr ds'"
    using init_Inr_ex [OF ne] by blast
  have "n_groups ds' = n_groups ds"
    using init_Inr_fields(8) [OF i] n(2) by (simp del: upt_Suc)
  then show ?thesis
    using e i init_Inr_fields(1,3) [OF i] by simp
qed

text \<open>
  Claim C3. For a well-formed dataset and non-negative \<^verbatim>\<open>left_trim\<close>,
  \<^verbatim>\<open>right_trim\<close> whose sum is below \<^verbatim>\<open>min_size\<close>, \<^verbatim>\<open>trim_dataset\<close> returns a
  dataset with the same number of groups in which every series is the series of the input
  without its first \<^verbatim>\<open>left_trim\<close> and its last \<^verbatim>\<open>right_trim\<close> rows; the result has
  \<open>(left_trim + right_trim) * n_groups\<close> rows less than the input.
\<close>

theorem trim_dataset_series:
  assumes "wf_dataset ds" and "0 \<le> left_trim" and "0 \<le> right_trim"
    and "left_trim + right_trim < min_size ds"
  shows "\<exists>ds'. trim_dataset ds left_trim right_trim = Inr ds' \<and>
           n_groups ds' = n_groups ds \<and>
           (\<forall>i<nat (n_groups ds).
              series ds' i =
                drop (nat left_trim)
                  (take (length (series ds i) - nat right_trim) (series ds i))) \<and>
           int (nrows (temporal ds')) =
             int (nrows (temporal ds)) - (left_trim + right_trim) * n_groups ds"
proof -
  let ?n = "nat (n_groups ds)"
  let ?off = "trim_offset ds left_trim right_trim"
  let ?seg = "trimmed ds left_trim right_trim"
  obtain ds' where t: "trim_dataset ds left_trim right_trim = Inr ds'"
    and T: "temporal ds' = \<lparr>ncols = ncols (temporal ds), rows = concat (map ?seg [0..<?n])\<rparr>"
    and I: "indptr ds' = map ?off [0..<Suc ?n]"
    and G: "n_groups ds' = n_groups ds"
    using trim_dataset_closed [OF assms] by blast
  have d: "derived_fields ds" and v: "indptr_inv ds"
    using assms(1) by (simp_all add: wf_dataset_def)
  note n = derived_n_groups [OF d]
  have total: "length (concat (map ?seg [0..<?n])) = nat (?off ?n)"
    using assms order_refl by (rule length_concat_trimmed)
  have offn: "?off ?n = int (nrows (temporal ds)) - (left_trim + right_trim) * n_groups ds"
    using indptr_ends(2) [OF d v] n(2) by (simp add: trim_offset_def mult.commute)
  have "series ds' i =
      drop (nat left_trim) (take (length (series ds i) - nat right_trim) (series ds i))"
    if i: "i < ?n" for i
  proof -
    have i': "i \<le> ?n" and si: "Suc i \<le> ?n" using i by simp_all
    note g = trim_group_facts [OF assms i]
    note b0 = trim_offset_bounds [OF assms i']
    note b1 = trim_offset_bounds [OF assms si]
    note bn = trim_offset_bounds [OF assms order_refl]
    have a: "length (concat (map ?seg [0..<i])) = nat (?off i)"
      using assms i' by (rule length_concat_trimmed)
    have w: "length (?seg i) = nat (?off (Suc i)) - nat (?off i)"
      using g(2) b0(1) by (simp add: g(3) trim_offset_Suc)
    have "series ds' i = py_slice (concat (map ?seg [0..<?n])) (?off i) (?off (Suc i))"
      using i by (simp add: series_def T I nth_map_upt del: upt_Suc)
    also have "\<dots> = take (nat (?off (Suc i) - ?off i)) (drop (nat (?off i)) (concat (map ?seg [0..<?n])))"
      using b0(1) g(4) b1(2) offn bn(1) by (intro py_slice_inner) (simp_all add: total)
    also have "nat (?off (Suc i) - ?off i) = nat (?off (Suc i)) - nat (?off i)"
      using b0(1) g(4) by linarith
    also have "take (nat (?off (Suc i)) - nat (?off i)) (drop (nat (?off i)) (concat (map ?seg [0..<?n])))
        = ?seg i"
      using i a w by (rule concat_segment)
    also have "\<dots> = drop (nat left_trim) (take (length (series ds i) - nat right_trim) (series ds i))"
      using assms i by (rule trimmed_eq)
    finally show ?thesis .
  qed
  moreover have "int (nrows (temporal ds')) =
             int (nrows (temporal ds)) - (left_trim + right_trim) * n_groups ds"
    using trim_offset_bounds(1) [OF assms order_refl] offn by (simp add: nrows_def T total)
  ultimately show ?thesis
    using t G by blast
qed

theorem trim_dataset_series_witness:
  "wf_dataset example_long \<and> (0 :: int) \<le> 1 \<and> 1 + 1 < min_size example_long \<and>
   trim_dataset example_long 1 1 =
     Inr \<lparr>temporal = \<lparr>ncols = 1, rows = [[2], [5], [6]]\<rparr>, temporal_cols = [''y''],
          indptr = [0, 1, 3], n_groups = 2, static = None, static_cols = None, max_size = 2,
          min_size = 1, y_idx = 0, updated = False\<rparr> \<and>
   (\<exists>ds'. trim_dataset example_long 1 1 = Inr ds' \<and>
      n_groups ds' = n_groups example_long \<and>
      (\<forall>i<nat (n_groups example_long).
         series ds' i =
           drop (nat 1) (take (length (series example_long i) - nat 1) (series example_long i))) \<and>
      int (nrows (temporal ds')) =
        int (nrows (temporal example_long)) - (1 + 1) * n_groups example_long)"
proof -
  have h1: "wf_dataset example_long"
    by code_simp
  have h2: "(0 :: int) \<le> 1"
    by simp
  have h4: "1 + 1 < min_size example_long"
    by code_simp
  have e: "trim_dataset example_long 1 1 =
     Inr \<lparr>temporal = \<lparr>ncols = 1, rows = [[2], [5], [6]]\<rparr>, temporal_cols = [''y''],
          indptr = [0, 1, 3], n_groups = 2, static = None, static_cols = None, max_size = 2,
          min_size = 1, y_idx = 0, updated = False\<rparr>"
    by code_simp
  show ?thesis
    by (intro conjI h1 h2 h4 e trim_dataset_series [OF h1 h2 h2 h4])
qed

section \<open>When trimming raises\<close>

text \<open>
  The claim that \<^verbatim>\<open>trim_dataset\<close> raises exactly when
  \<open>min_size \<le> left_trim + right_trim\<close> fails for a negative trim: with
  \<open>left_trim = -1\<close> the guard passes, the slice \<^verbatim>\<open>temporal[-1:2]\<close> of the first
  series is empty, and its assignment to three rows of the new tensor raises
  \<^verbatim>\<open>RuntimeError\<close>.
\<close>

theorem trim_dataset_negative_trim_raises:
  "wf_dataset example_dataset \<and>
   \<not> min_size example_dataset \<le> (- 1) + 0 \<and>
   trim_dataset example_dataset (- 1) 0 = Inl RuntimeError"
  by code_simp

text \<open>
  Claim C6, amended. For a well-formed dataset and non-negative \<^verbatim>\<open>left_trim\<close> and
  \<^verbatim>\<open>right_trim\<close>, \<^verbatim>\<open>trim_dataset\<close> raises an exception if and only if
  \<open>min_size \<le> left_trim + right_trim\<close>; whenever it raises, no dataset is constructed
  and the heap, with the input dataset in it, is unchanged.
\<close>

theorem trim_dataset_raises_iff:
  assumes "wf_dataset (h ! d)" and "0 \<le> left_trim" and "0 \<le> right_trim"
  shows "((\<exists>e. trim_dataset (h ! d) left_trim right_trim = Inl e) \<longleftrightarrow>
            min_size (h ! d) \<le> left_trim + right_trim) \<and>
         (\<forall>e h'. trim_method h d left_trim right_trim = (h', Inl e) \<longrightarrow> h' = h)"
proof -
  have "\<exists>e. trim_dataset (h ! d) left_trim right_trim = Inl e"
    if "min_size (h ! d) \<le> left_trim + right_trim"
    using that by (simp add: trim_dataset_def)
  moreover have "\<not> (\<exists>e. trim_dataset (h ! d) left_trim right_trim = Inl e)"
    if "\<not> min_size (h ! d) \<le> left_trim + right_trim"
  proof -
    have "left_trim + right_trim < min_size (h ! d)"
      using that by simp
    then obtain ds' where "trim_dataset (h ! d) left_trim right_trim = Inr ds'"
      using trim_dataset_closed [OF assms] by blast
    then show ?thesis by simp
  qed
  moreover have "\<forall>e h'. trim_method h d left_trim right_trim = (h', Inl e) \<longrightarrow> h' = h"
    by (auto simp: trim_method_def split: sum.splits)
  ultimately show ?thesis by blast
qed

theorem trim_dataset_raises_iff_witness:
  "wf_dataset ([example_dataset, example_long] ! 1) \<and> (0 :: int) \<le> 2 \<and> (0 :: int) \<le> 1 \<and>
   min_size ([example_dataset, example_long] ! 1) \<le> 2 + 1 \<and>
   trim_dataset ([example_dataset, example_long] ! 1) 2 1 = Inl Exception \<and>
   trim_method [example_dataset, example_long] 1 2 1 =
     ([example_dataset, example_long], Inl Exception) \<and>
   \<not> min_size ([example_dataset, example_long] ! 1) \<le> 1 + 1 \<and>
   \<not> (\<exists>e. trim_dataset ([example_dataset, example_long] ! 1) 1 1 = Inl e)"
proof -
  have h1: "wf_dataset ([example_dataset, example_long] ! 1)"
    by code_simp
  have h2: "(0 :: int) \<le> 2" and h3: "(0 :: int) \<le> 1"
    by simp_all
  have h4: "min_size ([example_dataset, example_long] ! 1) \<le> 2 + 1"
    by code_simp
  have h5: "\<not> min_size ([example_dataset, example_long] ! 1) \<le> 1 + 1"
    by code_simp
  have e: "trim_dataset ([example_dataset, example_long] ! 1) 2 1 = Inl Exception"
    by code_simp
  have m: "trim_method [example_dataset, example_long] 1 2 1 =
     ([example_dataset, example_long], Inl Exception)"
    by code_simp
  have "\<not> (\<exists>e. trim_dataset ([example_dataset, example_long] ! 1) 1 1 = Inl e)"
    using trim_dataset_raises_iff [OF h1 h3 h3] h5
    by blast
  then show ?thesis
    using h1 h2 h3 h4 h5 e m trim_dataset_raises_iff [OF h1 h2 h3]
    by blast
qed

section \<open>Appending future observations\<close>

lemma set_rows_extend:
  assumes "rows tgt = P @ drop (length P) Z" "length P + nrows v \<le> length Z"
    and "ncols v = ncols tgt" "a = int (length P)" "b = a + int (nrows v)"
  shows "set_rows tgt a b v = Inr (tgt\<lparr>rows := (P @ rows v) @ drop (length P + nrows v) Z\<rparr>)"
proof -
  have n: "nrows tgt = length Z"
    using assms(1,2) by (simp add: nrows_def)
  have "set_rows tgt a b v =
      Inr (tgt\<lparr>rows := take (nat a) (rows tgt) @ rows v @ drop (nat a + nrows v) (rows tgt)\<rparr>)"
    using assms by (intro set_rows_inner) (simp_all add: n)
  moreover have "take (nat a) (rows tgt) @ rows v @ drop (nat a + nrows v) (rows tgt) =
      (P @ rows v) @ drop (length P + nrows v) Z"
    using assms(1,4) by (simp add: add.commute)
  ultimately show ?thesis by simp
qed

lemma append_loop_append:
  "append_loop self futr ni (xs @ ys) t =
     and_then (append_loop self futr ni xs t) (append_loop self futr ni ys)"
proof (induction xs arbitrary: t)
  case Nil
  then show ?case by simp
next
  case (Cons x xs)
  show ?case
    by (simp add: Cons and_then_def Let_def split: sum.splits)
qed

lemma same_groups:
  assumes "derived_fields a" "derived_fields b" "length (indptr a) = length (indptr b)"
  shows "n_groups b = n_groups a"
  using assms by (simp add: derived_fields_def)

lemma length_concat_appended:
  assumes "wf_dataset self" "wf_dataset futr" "length (indptr self) = length (indptr futr)"
    and "k \<le> nat (n_groups self)"
  shows "int (length (concat (map (appended self futr) [0..<k]))) = indptr self ! k + indptr futr ! k"
  using assms(4)
proof (induction k)
  case 0
  show ?case
    using indptr_ends(1) [of self] indptr_ends(1) [of futr] assms(1,2)
    by (simp add: wf_dataset_def)
next
  case (Suc k)
  have ds: "derived_fields self" "indptr_inv self" and df: "derived_fields futr" "indptr_inv futr"
    using assms(1,2) by (simp_all add: wf_dataset_def)
  have ks: "k < nat (n_groups self)" using Suc.prems by simp
  then have kf: "k < nat (n_groups futr)"
    using same_groups [OF ds(1) df(1) assms(3)] by simp
  show ?case
    using Suc ks series_inner(2) [OF ds ks] series_inner(2) [OF df kf]
    by (simp add: appended_def)
qed


lemma nth_map2_add:
  "i < length xs \<Longrightarrow> length xs = length ys \<Longrightarrow> map2 (+) xs ys ! i = xs ! i + (ys ! i :: int)"
  by simp

lemma append_loop_upto:
  assumes ws: "wf_dataset self" and wf: "wf_dataset futr"
    and len: "length (indptr self) = length (indptr futr)"
    and cols: "ncols (temporal futr) = ncols (temporal self)"
    and k: "k \<le> nat (n_groups self)"
    and Z: "length Z = nrows (temporal self) + nrows (temporal futr)"
  shows "append_loop self futr (map2 (+) (indptr self) (indptr futr)) [0..<k]
           \<lparr>ncols = ncols (temporal self), rows = Z\<rparr> =
         Inr \<lparr>ncols = ncols (temporal self),
              rows = concat (map (appended self futr) [0..<k])
                       @ drop (length (concat (map (appended self futr) [0..<k]))) Z\<rparr>"
  using k
proof (induction k)
  case 0
  show ?case by simp
next
  case (Suc k)
  then have ks: "k < nat (n_groups self)" and k': "k \<le> nat (n_groups self)" by simp_all
  have ds: "derived_fields self" "indptr_inv self" and df: "derived_fields futr" "indptr_inv futr"
    using ws wf by (simp_all add: wf_dataset_def)
  have kf: "k < nat (n_groups futr)"
    using ks same_groups [OF ds(1) df(1) len] by simp
  note fs = indptr_facts [OF ds ks] and ff = indptr_facts [OF df kf]
  let ?ni = "map2 (+) (indptr self) (indptr futr)"
  let ?P = "concat (map (appended self futr) [0..<k])"
  let ?t = "\<lparr>ncols = ncols (temporal self), rows = ?P @ drop (length ?P) Z\<rparr>"
  define v1 where "v1 = slice_rows (temporal self) (indptr self ! k) (indptr self ! Suc k)"
  define v2 where "v2 = slice_rows (temporal futr) (indptr futr ! k) (indptr futr ! Suc k)"
  have lP: "int (length ?P) = indptr self ! k + indptr futr ! k"
    using ws wf len k' by (rule length_concat_appended)
  have lP': "int (length (concat (map (appended self futr) [0..<Suc k]))) =
      indptr self ! Suc k + indptr futr ! Suc k"
    using ws wf len Suc.prems by (rule length_concat_appended)
  have r1: "rows v1 = series self k" and c1: "ncols v1 = ncols ?t"
    by (simp_all add: v1_def slice_rows_def series_def)
  have r2: "rows v2 = series futr k" and c2: "ncols v2 = ncols ?t"
    using cols by (simp_all add: v2_def slice_rows_def series_def)
  have n1: "int (nrows v1) = indptr self ! Suc k - indptr self ! k"
    using series_inner(2) [OF ds ks] by (simp add: nrows_def r1)
  have n2: "int (nrows v2) = indptr futr ! Suc k - indptr futr ! k"
    using series_inner(2) [OF df kf] by (simp add: nrows_def r2)
  have top: "indptr self ! Suc k + indptr futr ! Suc k \<le> int (length Z)"
    using fs(4) ff(4) Z by simp
  have i0: "np_index (indptr self) (int k) = Inr (indptr self ! k)"
    using fs(1) by (intro np_index_nat) simp
  have i1: "np_index (indptr self) (int k + 1) = Inr (indptr self ! Suc k)"
    using fs(1) by (rule np_index_Suc)
  have j0: "np_index (indptr futr) (int k) = Inr (indptr futr ! k)"
    using ff(1) by (intro np_index_nat) simp
  have j1: "np_index (indptr futr) (int k + 1) = Inr (indptr futr ! Suc k)"
    using ff(1) by (rule np_index_Suc)
  have m0: "np_index ?ni (int k) = Inr (indptr self ! k + indptr futr ! k)"
    using fs(1) len np_index_nat [of k ?ni] by simp
  have m1: "np_index ?ni (int k + 1) = Inr (indptr self ! Suc k + indptr futr ! Suc k)"
    using fs(1) len np_index_Suc [of k ?ni] by simp
  have s1: "set_rows ?t (indptr self ! k + indptr futr ! k)
        (indptr self ! k + indptr futr ! k + (indptr self ! Suc k - indptr self ! k)) v1 =
      Inr (?t\<lparr>rows := (?P @ rows v1) @ drop (length ?P + nrows v1) Z\<rparr>)"
  proof (rule set_rows_extend)
    show "rows ?t = ?P @ drop (length ?P) Z" by simp
    show "length ?P + nrows v1 \<le> length Z"
      using lP n1 top ff(3) by linarith
    show "ncols v1 = ncols ?t" by (rule c1)
    show "indptr self ! k + indptr futr ! k = int (length ?P)" using lP by simp
    show "indptr self ! k + indptr futr ! k + (indptr self ! Suc k - indptr self ! k) =
        indptr self ! k + indptr futr ! k + int (nrows v1)"
      using n1 by simp
  qed
  let ?t1 = "?t\<lparr>rows := (?P @ rows v1) @ drop (length ?P + nrows v1) Z\<rparr>"
  have s2: "set_rows ?t1 (indptr self ! k + indptr futr ! k + (indptr self ! Suc k - indptr self ! k))
        (indptr self ! Suc k + indptr futr ! Suc k) v2 =
      Inr (?t1\<lparr>rows := ((?P @ rows v1) @ rows v2) @ drop (length (?P @ rows v1) + nrows v2) Z\<rparr>)"
  proof (rule set_rows_extend)
    show "rows ?t1 = (?P @ rows v1) @ drop (length (?P @ rows v1)) Z" by (simp add: nrows_def)
    show "length (?P @ rows v1) + nrows v2 \<le> length Z"
      using lP n1 n2 top by (simp add: nrows_def)
    show "ncols v2 = ncols ?t1" using c2 by simp
    show "indptr self ! k + indptr futr ! k + (indptr self ! Suc k - indptr self ! k) =
        int (length (?P @ rows v1))"
      using lP n1 by (simp add: nrows_def)
    show "indptr self ! Suc k + indptr futr ! Suc k =
        indptr self ! k + indptr futr ! k + (indptr self ! Suc k - indptr self ! k) + int (nrows v2)"
      using n2 by simp
  qed
  have fin: "?t1\<lparr>rows := ((?P @ rows v1) @ rows v2) @ drop (length (?P @ rows v1) + nrows v2) Z\<rparr> =
      \<lparr>ncols = ncols (temporal self),
       rows = concat (map (appended self futr) [0..<Suc k])
                @ drop (length (concat (map (appended self futr) [0..<Suc k]))) Z\<rparr>"
    by (simp add: r1 r2 appended_def nrows_def add.assoc)
  have "append_loop self futr ?ni [0..<Suc k] \<lparr>ncols = ncols (temporal self), rows = Z\<rparr> =
      append_loop self futr ?ni [k] ?t"
    by (simp only: upt_Suc_append [OF le0] append_loop_append Suc.IH [OF k'] and_then_simps)
  also have "\<dots> = Inr \<lparr>ncols = ncols (temporal self),
       rows = concat (map (appended self futr) [0..<Suc k])
                @ drop (length (concat (map (appended self futr) [0..<Suc k]))) Z\<rparr>"
    using s1 s2 fin
    by (simp only: append_loop.simps i0 i1 j0 j1 m0 m1 and_then_simps Let_def
        v1_def [symmetric] v2_def [symmetric])
  finally show ?case .
qed


lemma append_closed:
  assumes ws: "wf_dataset self" and wf: "wf_dataset futr"
    and len: "length (indptr self) = length (indptr futr)"
    and cols: "ncols (temporal futr) = ncols (temporal self)"
  shows "\<exists>ds'. append u self futr = Inr ds' \<and>
           temporal ds' = \<lparr>ncols = ncols (temporal self),
                            rows = concat (map (appended self futr) [0..<nat (n_groups self)])\<rparr> \<and>
           indptr ds' = map2 (+) (indptr self) (indptr futr) \<and>
           n_groups ds' = n_groups self \<and> temporal_cols ds' = temporal_cols self \<and>
           static ds' = static self \<and> static_cols ds' = static_cols self \<and>
           y_idx ds' = y_idx self \<and> updated ds' = False \<and> derived_fields ds'"
proof -
  let ?n = "nat (n_groups self)"
  let ?ni = "map2 (+) (indptr self) (indptr futr)"
  let ?Z = "replicate (nrows (temporal self) + nrows (temporal futr))
              (replicate (ncols (temporal self)) u)"
  let ?P = "concat (map (appended self futr) [0..<?n])"
  have ds: "derived_fields self" "indptr_inv self" and df: "derived_fields futr" "indptr_inv futr"
    using ws wf by (simp_all add: wf_dataset_def)
  note n = derived_n_groups [OF ds(1)]
  have nf: "n_groups futr = n_groups self"
    using ds(1) df(1) len by (rule same_groups)
  have z: "filled u (int (nrows (temporal self)) + int (nrows (temporal futr)))
             (int (ncols (temporal self))) = Inr \<lparr>ncols = ncols (temporal self), rows = ?Z\<rparr>"
    by (simp add: filled_def nat_add_distrib)
  have loop: "append_loop self futr ?ni [0..<?n] \<lparr>ncols = ncols (temporal self), rows = ?Z\<rparr> =
         Inr \<lparr>ncols = ncols (temporal self), rows = ?P @ drop (length ?P) ?Z\<rparr>"
    using ws wf len cols order_refl by (rule append_loop_upto) simp
  have "int (length ?P) = indptr self ! ?n + indptr futr ! ?n"
    using ws wf len order_refl by (rule length_concat_appended)
  then have "length ?P = length ?Z"
    using indptr_ends(2) [OF ds] indptr_ends(2) [OF df] nf by simp
  then have dr: "drop (length ?P) ?Z = []"
    by simp
  have lni: "length ?ni = Suc ?n"
    using n(1) len by simp
  have ne: "np_diff ?ni \<noteq> []"
    by (rule np_diff_nonempty [where i = 0]) (use n(3) lni in simp)
  have e: "append u self futr =
      TimeSeriesDataset_init \<lparr>ncols = ncols (temporal self), rows = ?P\<rparr> (temporal_cols self) ?ni
        (y_idx self) (static self) (static_cols self)"
    unfolding append_def using len
    by (simp only: simp_thms if_False Let_def z and_then_simps loop dr append_Nil2)
  obtain ds' where i: "TimeSeriesDataset_init \<lparr>ncols = ncols (temporal self), rows = ?P\<rparr>
        (temporal_cols self) ?ni (y_idx self) (static self) (static_cols self) = Inr ds'"
    using init_Inr_ex [OF ne] by blast
  note fl = init_Inr_fields [OF i]
  have "n_groups ds' = n_groups self"
    using fl(8) lni n(2) by simp
  moreover have "derived_fields ds'"
    using fl(3,8,9,10) lni n(3) by (simp add: derived_fields_def)
  ultimately show ?thesis
    using e i fl(1-7) by simp
qed


lemma take_drop_nths:
  assumes "b \<le> length xs"
  shows "take (b - a) (drop a xs) = map ((!) xs) [a..<b]"
proof (rule nth_equalityI)
  show "length (take (b - a) (drop a xs)) = length (map ((!) xs) [a..<b])"
    using assms by simp
  fix i
  assume "i < length (take (b - a) (drop a xs))"
  then have "i < b - a" by simp
  then show "take (b - a) (drop a xs) ! i = map ((!) xs) [a..<b] ! i"
    using assms by (simp add: nth_map_upt)
qed

lemma indptr_inv_structural:
  assumes d: "derived_fields ds" and z: "indptr ds ! 0 = 0" and s: "sorted (indptr ds)"
    and e: "last (indptr ds) = int (nrows (temporal ds))"
  shows "indptr_inv ds"
proof -
  let ?ip = "indptr ds"
  let ?n = "nat (n_groups ds)"
  note n = derived_n_groups [OF d]
  have e': "?ip ! ?n = int (nrows (temporal ds))"
    using e n(1,4) by (simp add: last_conv_nth)
  have "series ds i = map ((!) (rows (temporal ds))) [nat (?ip ! i)..<nat (?ip ! Suc i)]"
    if i: "i < ?n" for i
  proof -
    have "?ip ! 0 \<le> ?ip ! i" "?ip ! i \<le> ?ip ! Suc i" "?ip ! Suc i \<le> ?ip ! ?n"
      using s i n(1) by (simp_all add: sorted_nth_mono)
    then have b: "0 \<le> ?ip ! i" "?ip ! i \<le> ?ip ! Suc i" "?ip ! Suc i \<le> int (length (rows (temporal ds)))"
      using z e' by (simp_all add: nrows_def)
    have "series ds i =
        take (nat (?ip ! Suc i - ?ip ! i)) (drop (nat (?ip ! i)) (rows (temporal ds)))"
      unfolding series_def using b by (rule py_slice_inner)
    also have "nat (?ip ! Suc i - ?ip ! i) = nat (?ip ! Suc i) - nat (?ip ! i)"
      using b by linarith
    also have "take (nat (?ip ! Suc i) - nat (?ip ! i)) (drop (nat (?ip ! i)) (rows (temporal ds))) =
        map ((!) (rows (temporal ds))) [nat (?ip ! i)..<nat (?ip ! Suc i)]"
      using b(3) by (intro take_drop_nths) linarith
    finally show ?thesis .
  qed
  then have "list_all (\<lambda>i. series ds i =
                 map (\<lambda>k. rows (temporal ds) ! k) [nat (?ip ! i)..<nat (?ip ! Suc i)])
       [0..<?n]"
    by (simp add: list_all_iff)
  moreover have "np_index ?ip 0 = Inr 0"
    using z n(1) by (simp add: np_index_def)
  moreover have "np_index ?ip (- 1) = Inr (int (nrows (temporal ds)))"
    using e' n(1,3) by (simp add: np_index_def)
  moreover have "int (length ?ip) = n_groups ds + 1"
    using n(1,2) by simp
  ultimately show ?thesis
    using s by (simp add: indptr_inv_def)
qed

lemma indptr_inv_last:
  assumes "derived_fields ds" "indptr_inv ds"
  shows "last (indptr ds) = int (nrows (temporal ds))" "sorted (indptr ds)"
  using assms indptr_ends(2) [OF assms] derived_n_groups [OF assms(1)]
  by (simp_all add: last_conv_nth indptr_inv_def)

lemma sorted_map2_add:
  fixes xs ys :: "int list"
  assumes "sorted xs" "sorted ys" "length xs = length ys"
  shows "sorted (map2 (+) xs ys)"
  using assms by (auto simp: sorted_iff_nth_mono intro: add_mono)

lemma appended_wf_rows:
  assumes "wf_dataset self" "wf_dataset futr" "ncols (temporal futr) = ncols (temporal self)"
  shows "list_all (\<lambda>r. length r = ncols (temporal self)) (concat (map (appended self futr) js))"
proof -
  have "\<forall>r \<in> set (rows (temporal self)). length r = ncols (temporal self)"
    "\<forall>r \<in> set (rows (temporal futr)). length r = ncols (temporal self)"
    using assms by (simp_all add: wf_dataset_def wf_tensor_def list_all_iff)
  then have "\<forall>r \<in> set (series self j) \<union> set (series futr j). length r = ncols (temporal self)" for j
    by (auto simp: series_def py_slice_def Let_def dest!: in_set_takeD in_set_dropD)
  then show ?thesis
    by (auto simp: list_all_iff appended_def)
qed

lemma append_wf:
  assumes ws: "wf_dataset self" and wf: "wf_dataset futr"
    and len: "length (indptr self) = length (indptr futr)"
    and cols: "ncols (temporal futr) = ncols (temporal self)"
    and a: "append u self futr = Inr ds'"
  shows "wf_dataset ds'"
proof -
  let ?n = "nat (n_groups self)"
  let ?P = "concat (map (appended self futr) [0..<?n])"
  have T: "temporal ds' = \<lparr>ncols = ncols (temporal self), rows = ?P\<rparr>"
    and I: "indptr ds' = map2 (+) (indptr self) (indptr futr)"
    and C: "temporal_cols ds' = temporal_cols self" and D: "derived_fields ds'"
    using append_closed [OF ws wf len cols, of u] a by auto
  have ds: "derived_fields self" "indptr_inv self" and df: "derived_fields futr" "indptr_inv futr"
    using ws wf by (simp_all add: wf_dataset_def)
  note n = derived_n_groups [OF ds(1)]
  have nf: "n_groups futr = n_groups self"
    using ds(1) df(1) len by (rule same_groups)
  have lP: "int (length ?P) = indptr self ! ?n + indptr futr ! ?n"
    using ws wf len order_refl by (rule length_concat_appended)
  have "indptr ds' ! 0 = 0"
    using indptr_ends(1) [OF ds] indptr_ends(1) [OF df] n(1) len by (simp add: I)
  moreover have "sorted (indptr ds')"
    unfolding I using indptr_inv_last(2) [OF ds] indptr_inv_last(2) [OF df] len
    by (rule sorted_map2_add)
  moreover have "last (indptr ds') = int (nrows (temporal ds'))"
  proof -
    have lni: "length (indptr ds') = Suc ?n"
      using n(1) len by (simp add: I)
    then have "indptr ds' \<noteq> []" by auto
    then have "last (indptr ds') = indptr ds' ! ?n"
      using lni by (simp add: last_conv_nth)
    also have "\<dots> = indptr self ! ?n + indptr futr ! ?n"
      using n(1) len by (simp add: I)
    finally show ?thesis
      using lP by (simp add: T nrows_def)
  qed
  ultimately have "indptr_inv ds'"
    using D by (intro indptr_inv_structural)
  moreover have "wf_tensor (temporal ds')"
    using appended_wf_rows [OF ws wf cols] by (simp add: T wf_tensor_def)
  moreover have "ncols (temporal ds') = length (temporal_cols ds')"
    using ws by (simp add: T C wf_dataset_def)
  ultimately show ?thesis
    using D by (simp add: wf_dataset_def)
qed




section \<open>The invariant of the offsets\<close>

lemma length_expand:
  "expand v r c = Some vr \<Longrightarrow> length vr = r"
  by (auto simp: expand_def Let_def nrows_def split: if_splits)

lemma slice_bound_le: "slice_bound n i \<le> n"
  by (auto simp: slice_bound_def)
















section \<open>What the methods leave unchanged\<close>

lemma append_loop_ignores_updated:
  "append_loop (self\<lparr>updated := p\<rparr>) (futr\<lparr>updated := q\<rparr>) ni js = append_loop self futr ni js"
proof (induction js)
  case Nil
  show ?case by (rule ext) simp
next
  case (Cons j js)
  show ?case by (rule ext) (simp add: Cons)
qed

lemma append_ignores_updated:
  "append u (self\<lparr>updated := p\<rparr>) (futr\<lparr>updated := q\<rparr>) = append u self futr"
  by (simp add: append_def append_loop_ignores_updated)

lemma trim_loop_ignores_updated:
  "trim_loop (ds\<lparr>updated := p\<rparr>) l r js = trim_loop ds l r js"
proof (induction js)
  case Nil
  show ?case by (rule ext) simp
next
  case (Cons j js)
  show ?case
  proof (rule ext)
    fix st :: "'a tensor \<times> int \<times> int list"
    obtain t a ip where st: "st = (t, a, ip)" by (cases st)
    show "trim_loop (ds\<lparr>updated := p\<rparr>) l r (j # js) st = trim_loop ds l r (j # js) st"
      unfolding st by (simp add: Cons)
  qed
qed

lemma trim_ignores_updated:
  "trim_dataset (ds\<lparr>updated := p\<rparr>) l r = trim_dataset ds l r"
  by (simp add: trim_dataset_def trim_loop_ignores_updated)

lemma append_all_succeeds:
  assumes "wf_dataset d"
    and "list_all (\<lambda>f. wf_dataset f \<and> length (indptr f) = length (indptr d) \<and>
                        ncols (temporal f) = ncols (temporal d)) fs"
  shows "\<exists>d'. append_all u d fs = Inr d' \<and> wf_dataset d' \<and> updated d' = updated (last (d # map (\<lambda>f. f\<lparr>updated := False\<rparr>) fs))"
  using assms
proof (induction fs arbitrary: d)
  case Nil
  then show ?case by simp
next
  case (Cons f fs)
  then have wf: "wf_dataset f" and len: "length (indptr d) = length (indptr f)"
    and cols: "ncols (temporal f) = ncols (temporal d)"
    by simp_all
  obtain d1 where a: "append u d f = Inr d1"
    and T: "temporal d1 = \<lparr>ncols = ncols (temporal d),
                            rows = concat (map (appended d f) [0..<nat (n_groups d)])\<rparr>"
    and I: "indptr d1 = map2 (+) (indptr d) (indptr f)" and U: "updated d1 = False"
    using append_closed [OF Cons.prems(1) wf len cols, of u] by blast
  have w1: "wf_dataset d1"
    using Cons.prems(1) wf len cols a by (rule append_wf)
  have "list_all (\<lambda>g. wf_dataset g \<and> length (indptr g) = length (indptr d1) \<and>
                        ncols (temporal g) = ncols (temporal d1)) fs"
    using Cons.prems(2) len by (simp add: T I list_all_iff)
  from Cons.IH [OF w1 this] obtain d' where "append_all u d1 fs = Inr d'" "wf_dataset d'"
    "updated d' = updated (last (d1 # map (\<lambda>f. f\<lparr>updated := False\<rparr>) fs))"
    by blast
  then show ?case
    using a U by (cases fs) auto
qed

text \<open>
  The statements of the loops write to the tensor at \<open>nt\<close> only, and what they leave
  there is the tensor the loops on values compute.
\<close>

lemma store_upd_id: "s\<lparr>tensors := (tensors s)[nt := tensors s ! nt]\<rparr> = s"
  by simp

lemma dataset_at_frame:
  assumes "a_temporal (objects s ! r) \<noteq> nt" "a_static (objects s ! r) \<noteq> Some nt"
  shows "dataset_at (s\<lparr>tensors := (tensors s)[nt := t]\<rparr>) r = dataset_at s r"
  using assms by (cases "a_static (objects s ! r)") (simp_all add: dataset_at_def)

lemma append_loop_heap_refines:
  assumes "a_temporal (objects s ! self) \<noteq> nt" "a_static (objects s ! self) \<noteq> Some nt"
    and "a_temporal (objects s ! futr) \<noteq> nt" "a_static (objects s ! futr) \<noteq> Some nt"
    and "nt < length (tensors s)"
  shows "\<exists>t. snd (append_loop_heap self futr ni nt js s) = s\<lparr>tensors := (tensors s)[nt := t]\<rparr> \<and>
     (case fst (append_loop_heap self futr ni nt js s) of
        Inl e \<Rightarrow> append_loop (dataset_at s self) (dataset_at s futr) (arrays s ! ni) js
                   (tensors s ! nt) = Inl e
      | Inr _ \<Rightarrow> append_loop (dataset_at s self) (dataset_at s futr) (arrays s ! ni) js
                   (tensors s ! nt) = Inr t)"
  using assms
proof (induction js arbitrary: s)
  case Nil
  show ?case
    by (rule exI [of _ "tensors s ! nt"]) simp
next
  case (Cons j js)
  let ?D = "dataset_at s self" and ?F = "dataset_at s futr"
  have D: "indptr ?D = arrays s ! a_indptr (objects s ! self)"
    "temporal ?D = tensors s ! a_temporal (objects s ! self)"
    "indptr ?F = arrays s ! a_indptr (objects s ! futr)"
    "temporal ?F = tensors s ! a_temporal (objects s ! futr)"
    by (simp_all add: dataset_at_def)
  have keep: "\<exists>t. s = s\<lparr>tensors := (tensors s)[nt := t]\<rparr>"
    by (rule exI [of _ "tensors s ! nt"]) simp
  have step: "\<exists>t. snd (append_loop_heap self futr ni nt js (s\<lparr>tensors := (tensors s)[nt := t2]\<rparr>)) =
        s\<lparr>tensors := (tensors s)[nt := t]\<rparr> \<and>
     (case fst (append_loop_heap self futr ni nt js (s\<lparr>tensors := (tensors s)[nt := t2]\<rparr>)) of
        Inl e \<Rightarrow> append_loop ?D ?F (arrays s ! ni) js t2 = Inl e
      | Inr _ \<Rightarrow> append_loop ?D ?F (arrays s ! ni) js t2 = Inr t)" for t2
  proof -
    let ?s2 = "s\<lparr>tensors := (tensors s)[nt := t2]\<rparr>"
    have eqs: "dataset_at ?s2 self = ?D" "dataset_at ?s2 futr = ?F" "arrays ?s2 = arrays s"
      "tensors ?s2 ! nt = t2"
      "\<And>t. ?s2\<lparr>tensors := (tensors ?s2)[nt := t]\<rparr> = s\<lparr>tensors := (tensors s)[nt := t]\<rparr>"
      using Cons.prems by (simp_all add: dataset_at_frame)
    have "\<exists>t. snd (append_loop_heap self futr ni nt js ?s2) = ?s2\<lparr>tensors := (tensors ?s2)[nt := t]\<rparr> \<and>
     (case fst (append_loop_heap self futr ni nt js ?s2) of
        Inl e \<Rightarrow> append_loop (dataset_at ?s2 self) (dataset_at ?s2 futr) (arrays ?s2 ! ni) js
                   (tensors ?s2 ! nt) = Inl e
      | Inr _ \<Rightarrow> append_loop (dataset_at ?s2 self) (dataset_at ?s2 futr) (arrays ?s2 ! ni) js
                   (tensors ?s2 ! nt) = Inr t)"
      using Cons.prems by (intro Cons.IH) simp_all
    then show ?thesis
      unfolding eqs .
  qed
  have step': "\<exists>t. (\<forall>e. fst (append_loop_heap self futr ni nt js (s\<lparr>tensors := (tensors s)[nt := t2]\<rparr>)) = Inl e \<longrightarrow>
          snd (append_loop_heap self futr ni nt js (s\<lparr>tensors := (tensors s)[nt := t2]\<rparr>)) =
            s\<lparr>tensors := (tensors s)[nt := t]\<rparr> \<and>
          append_loop ?D ?F (arrays s ! ni) js t2 = Inl e) \<and>
        (fst (append_loop_heap self futr ni nt js (s\<lparr>tensors := (tensors s)[nt := t2]\<rparr>)) = Inr () \<longrightarrow>
          snd (append_loop_heap self futr ni nt js (s\<lparr>tensors := (tensors s)[nt := t2]\<rparr>)) =
            s\<lparr>tensors := (tensors s)[nt := t]\<rparr> \<and>
          append_loop ?D ?F (arrays s ! ni) js t2 = Inr t)" for t2
    using step [of t2] by (auto split: sum.splits)
  show ?case
    using keep Cons.prems(1,3,5)
    by (simp add: bind_st_def index_array_def slice_tensor_def assign_rows_def Let_def D
        split: sum.splits prod.splits) (use step' in auto)
qed


lemma trim_loop_heap_refines:
  assumes "a_temporal (objects s ! d) \<noteq> nt" "a_static (objects s ! d) \<noteq> Some nt"
    and "nt < length (tensors s)"
  shows "\<exists>t. snd (trim_loop_heap d l r nt js (a, ip) s) = s\<lparr>tensors := (tensors s)[nt := t]\<rparr> \<and>
     (case fst (trim_loop_heap d l r nt js (a, ip) s) of
        Inl e \<Rightarrow> trim_loop (dataset_at s d) l r js (tensors s ! nt, a, ip) = Inl e
      | Inr st \<Rightarrow> trim_loop (dataset_at s d) l r js (tensors s ! nt, a, ip) = Inr (t, st))"
  using assms
proof (induction js arbitrary: s a ip)
  case Nil
  show ?case
    by (rule exI [of _ "tensors s ! nt"]) simp
next
  case (Cons j js)
  let ?D = "dataset_at s d"
  have D: "indptr ?D = arrays s ! a_indptr (objects s ! d)"
    "temporal ?D = tensors s ! a_temporal (objects s ! d)"
    by (simp_all add: dataset_at_def)
  have keep: "\<exists>t. s = s\<lparr>tensors := (tensors s)[nt := t]\<rparr>"
    by (rule exI [of _ "tensors s ! nt"]) simp
  have step: "\<exists>t. snd (trim_loop_heap d l r nt js (a2, ip2) (s\<lparr>tensors := (tensors s)[nt := t2]\<rparr>)) =
        s\<lparr>tensors := (tensors s)[nt := t]\<rparr> \<and>
     (case fst (trim_loop_heap d l r nt js (a2, ip2) (s\<lparr>tensors := (tensors s)[nt := t2]\<rparr>)) of
        Inl e \<Rightarrow> trim_loop ?D l r js (t2, a2, ip2) = Inl e
      | Inr st \<Rightarrow> trim_loop ?D l r js (t2, a2, ip2) = Inr (t, st))" for t2 a2 ip2
  proof -
    let ?s2 = "s\<lparr>tensors := (tensors s)[nt := t2]\<rparr>"
    have eqs: "dataset_at ?s2 d = ?D" "tensors ?s2 ! nt = t2"
      "\<And>t. ?s2\<lparr>tensors := (tensors ?s2)[nt := t]\<rparr> = s\<lparr>tensors := (tensors s)[nt := t]\<rparr>"
      using Cons.prems by (simp_all add: dataset_at_frame)
    have "\<exists>t. snd (trim_loop_heap d l r nt js (a2, ip2) ?s2) = ?s2\<lparr>tensors := (tensors ?s2)[nt := t]\<rparr> \<and>
     (case fst (trim_loop_heap d l r nt js (a2, ip2) ?s2) of
        Inl e \<Rightarrow> trim_loop (dataset_at ?s2 d) l r js (tensors ?s2 ! nt, a2, ip2) = Inl e
      | Inr st \<Rightarrow> trim_loop (dataset_at ?s2 d) l r js (tensors ?s2 ! nt, a2, ip2) = Inr (t, st))"
      using Cons.prems by (intro Cons.IH) simp_all
    then show ?thesis
      unfolding eqs .
  qed
  have step': "\<exists>t. (\<forall>e. fst (trim_loop_heap d l r nt js (a2, ip2) (s\<lparr>tensors := (tensors s)[nt := t2]\<rparr>)) = Inl e \<longrightarrow>
          snd (trim_loop_heap d l r nt js (a2, ip2) (s\<lparr>tensors := (tensors s)[nt := t2]\<rparr>)) =
            s\<lparr>tensors := (tensors s)[nt := t]\<rparr> \<and>
          trim_loop ?D l r js (t2, a2, ip2) = Inl e) \<and>
        (\<forall>st. fst (trim_loop_heap d l r nt js (a2, ip2) (s\<lparr>tensors := (tensors s)[nt := t2]\<rparr>)) = Inr st \<longrightarrow>
          snd (trim_loop_heap d l r nt js (a2, ip2) (s\<lparr>tensors := (tensors s)[nt := t2]\<rparr>)) =
            s\<lparr>tensors := (tensors s)[nt := t]\<rparr> \<and>
          trim_loop ?D l r js (t2, a2, ip2) = Inr (t, st))" for t2 a2 ip2
    using step [of a2 ip2 t2] by (auto split: sum.splits)
  show ?case
    using keep Cons.prems(1,3)
    by (simp add: bind_st_def index_array_def slice_tensor_def assign_rows_def Let_def D
        split: sum.splits prod.splits) (use step' in auto)
qed

lemma take_eq_nth: "take (length xs) ys = xs \<Longrightarrow> i < length xs \<Longrightarrow> ys ! i = xs ! i"
  by (metis nth_take)

lemma take_eq_length:
  assumes "take (length xs) ys = xs"
  shows "length xs \<le> length ys"
proof -
  have "length (take (length xs) ys) = length xs"
    using assms by simp
  then show ?thesis
    by simp
qed

lemma live_frame:
  assumes "live s r" and "take (length (tensors s)) (tensors s') = tensors s"
    and "take (length (arrays s)) (arrays s') = arrays s"
    and "take (length (objects s)) (objects s') = objects s"
  shows "live s' r \<and> dataset_at s' r = dataset_at s r \<and> objects s' ! r = objects s ! r"
proof -
  have o: "objects s' ! r = objects s ! r"
    using assms(1,4) by (simp add: live_def take_eq_nth)
  have len: "length (tensors s) \<le> length (tensors s')" "length (arrays s) \<le> length (arrays s')"
    "length (objects s) \<le> length (objects s')"
    using assms(2-4) by (simp_all add: take_eq_length)
  have t: "tensors s' ! a_temporal (objects s ! r) = tensors s ! a_temporal (objects s ! r)"
    using assms(1,2) by (simp add: live_def take_eq_nth)
  have a: "arrays s' ! a_indptr (objects s ! r) = arrays s ! a_indptr (objects s ! r)"
    using assms(1,3) by (simp add: live_def take_eq_nth)
  have st: "map_option (\<lambda>a. tensors s' ! a) (a_static (objects s ! r)) =
      map_option (\<lambda>a. tensors s ! a) (a_static (objects s ! r))"
    using assms(1,2) by (cases "a_static (objects s ! r)") (simp_all add: live_def take_eq_nth)
  have "live s' r"
    using assms(1) len by (auto simp: live_def o split: option.splits)
  then show ?thesis
    by (simp add: o dataset_at_def t a st)
qed

lemma TimeSeriesDataset_new_refines:
  assumes "t < length (tensors s)" and "ip < length (arrays s)"
    and "case st of None \<Rightarrow> True | Some a \<Rightarrow> a < length (tensors s)"
  shows "case TimeSeriesDataset_new t cols ip y st stc s of
           (res, s') \<Rightarrow>
             arrays s' = arrays s \<and> take (length (tensors s)) (tensors s') = tensors s \<and>
             take (length (objects s)) (objects s') = objects s \<and>
             (case res of
                Inl e \<Rightarrow>
                  objects s' = objects s \<and>
                  TimeSeriesDataset_init (tensors s ! t) cols (arrays s ! ip) y
                    (map_option (\<lambda>a. tensors s ! a) st) stc = Inl e
              | Inr new \<Rightarrow>
                  new = length (objects s) \<and> length (objects s') = Suc (length (objects s)) \<and>
                  live s' new \<and> a_indptr (objects s' ! new) = ip \<and>
                  length (tensors s) \<le> a_temporal (objects s' ! new) \<and>
                  (case a_static (objects s' ! new) of None \<Rightarrow> True
                   | Some a \<Rightarrow> length (tensors s) \<le> a \<and> a \<noteq> a_temporal (objects s' ! new)) \<and>
                  a_updated (objects s' ! new) = False \<and>
                  TimeSeriesDataset_init (tensors s ! t) cols (arrays s ! ip) y
                    (map_option (\<lambda>a. tensors s ! a) st) stc = Inr (dataset_at s' new))"
  using assms
  by (cases st)
    (auto simp: TimeSeriesDataset_new_def TimeSeriesDataset_init_def bind_st_def clone_def
      new_tensor_def new_object_def Let_def live_def dataset_at_def nth_append as_torch_copy_def)

lemma take_Suc_snoc:
  assumes "take (length zs) ys = zs" and "zs = xs @ [t]"
  shows "take (length xs) ys = xs"
proof -
  have "take (length xs) (take (length zs) ys) = take (length xs) zs"
    using assms(1) by simp
  then show ?thesis
    using assms(2) by (simp add: min_def)
qed

lemma append_heap_refines:
  assumes "live s self" and "live s futr"
  shows "case append_heap u self futr s of
           (res, s') \<Rightarrow>
             take (length (tensors s)) (tensors s') = tensors s \<and>
             take (length (arrays s)) (arrays s') = arrays s \<and>
             take (length (objects s)) (objects s') = objects s \<and>
             (case res of
                Inl e \<Rightarrow>
                  objects s' = objects s \<and>
                  append u (dataset_at s self) (dataset_at s futr) = Inl e
              | Inr new \<Rightarrow>
                  new = length (objects s) \<and> length (objects s') = Suc (length (objects s)) \<and>
                  live s' new \<and> length (arrays s) \<le> a_indptr (objects s' ! new) \<and>
                  length (tensors s) \<le> a_temporal (objects s' ! new) \<and>
                  (case a_static (objects s' ! new) of None \<Rightarrow> True
                   | Some a \<Rightarrow> length (tensors s) \<le> a \<and> a \<noteq> a_temporal (objects s' ! new)) \<and>
                  a_updated (objects s' ! new) = False \<and>
                  append u (dataset_at s self) (dataset_at s futr) = Inr (dataset_at s' new))"
proof (cases "length (arrays s ! a_indptr (objects s ! self))
                \<noteq> length (arrays s ! a_indptr (objects s ! futr))")
  case True
  then show ?thesis
    by (simp add: append_heap_def append_def dataset_at_def)
next
  case False
  let ?D = "dataset_at s self" and ?F = "dataset_at s futr"
  let ?ni = "map2 (+) (indptr ?D) (indptr ?F)"
  let ?nt = "length (tensors s)" and ?na = "length (arrays s)"
  let ?js = "[0..<nat (n_groups ?D)]"
  have D: "indptr ?D = arrays s ! a_indptr (objects s ! self)"
    "temporal ?D = tensors s ! a_temporal (objects s ! self)"
    "indptr ?F = arrays s ! a_indptr (objects s ! futr)"
    "temporal ?F = tensors s ! a_temporal (objects s ! futr)"
    "n_groups ?D = a_n_groups (objects s ! self)"
    by (simp_all add: dataset_at_def)
  show ?thesis
  proof (cases "filled u (int (nrows (temporal ?D)) + int (nrows (temporal ?F)))
                  (int (ncols (temporal ?D)))")
    case (Inl e)
    then show ?thesis
      using False
      by (simp add: append_heap_def append_def bind_st_def new_tensor_def D [symmetric])
  next
    case (Inr t0)
    let ?s2 = "s\<lparr>tensors := tensors s @ [t0], arrays := arrays s @ [?ni]\<rparr>"
    have ext: "take ?nt (tensors ?s2) = tensors s" "take ?na (arrays ?s2) = arrays s"
      "take (length (objects s)) (objects ?s2) = objects s"
      by simp_all
    note l1 = live_frame [OF assms(1) ext] and l2 = live_frame [OF assms(2) ext]
    have ne: "a_temporal (objects ?s2 ! self) \<noteq> ?nt" "a_static (objects ?s2 ! self) \<noteq> Some ?nt"
      "a_temporal (objects ?s2 ! futr) \<noteq> ?nt" "a_static (objects ?s2 ! futr) \<noteq> Some ?nt"
      using assms by (auto simp: live_def)
    have "?nt < length (tensors ?s2)"
      by simp
    have eqs: "dataset_at ?s2 self = ?D" "dataset_at ?s2 futr = ?F"
      "arrays ?s2 ! ?na = ?ni" "tensors ?s2 ! ?nt = t0"
      using l1 l2 by simp_all
    have "\<exists>t. snd (append_loop_heap self futr ?na ?nt ?js ?s2) =
          ?s2\<lparr>tensors := (tensors ?s2)[?nt := t]\<rparr> \<and>
        (case fst (append_loop_heap self futr ?na ?nt ?js ?s2) of
          Inl e \<Rightarrow> append_loop (dataset_at ?s2 self) (dataset_at ?s2 futr) (arrays ?s2 ! ?na) ?js
                     (tensors ?s2 ! ?nt) = Inl e
        | Inr _ \<Rightarrow> append_loop (dataset_at ?s2 self) (dataset_at ?s2 futr) (arrays ?s2 ! ?na) ?js
                     (tensors ?s2 ! ?nt) = Inr t)"
      using ne \<open>?nt < length (tensors ?s2)\<close> by (rule append_loop_heap_refines)
    then have "\<exists>t. snd (append_loop_heap self futr ?na ?nt ?js ?s2) =
          ?s2\<lparr>tensors := (tensors ?s2)[?nt := t]\<rparr> \<and>
        (case fst (append_loop_heap self futr ?na ?nt ?js ?s2) of
          Inl e \<Rightarrow> append_loop ?D ?F ?ni ?js t0 = Inl e
        | Inr _ \<Rightarrow> append_loop ?D ?F ?ni ?js t0 = Inr t)"
      unfolding eqs .
    then obtain t where sn: "snd (append_loop_heap self futr ?na ?nt ?js ?s2) =
          ?s2\<lparr>tensors := (tensors ?s2)[?nt := t]\<rparr>"
      and ft: "case fst (append_loop_heap self futr ?na ?nt ?js ?s2) of
          Inl e \<Rightarrow> append_loop ?D ?F ?ni ?js t0 = Inl e
        | Inr _ \<Rightarrow> append_loop ?D ?F ?ni ?js t0 = Inr t"
      by blast
    let ?s3 = "s\<lparr>tensors := tensors s @ [t], arrays := arrays s @ [?ni]\<rparr>"
    have s3: "?s2\<lparr>tensors := (tensors ?s2)[?nt := t]\<rparr> = ?s3"
      by simp
    have run: "append_heap u self futr s =
        (case fst (append_loop_heap self futr ?na ?nt ?js ?s2) of
           Inl e \<Rightarrow> (Inl e, ?s3)
         | Inr _ \<Rightarrow>
             TimeSeriesDataset_new ?nt (temporal_cols ?D) ?na (y_idx ?D)
               (a_static (objects s ! self)) (static_cols ?D) ?s3)"
    proof -
      have f0: "filled u (int (nrows (tensors s ! a_temporal (objects s ! self))) +
            int (nrows (tensors s ! a_temporal (objects s ! futr))))
          (int (ncols (tensors s ! a_temporal (objects s ! self)))) = Inr t0"
        using Inr by (simp add: D)
      show ?thesis
        using False f0 sn [unfolded s3]
        by (auto simp: append_heap_def bind_st_def new_tensor_def new_array_def Let_def
            dataset_at_def split: sum.splits prod.splits)
    qed
    have fun_run: "append u ?D ?F =
        and_then (append_loop ?D ?F ?ni ?js t0) (\<lambda>new_temporal.
          TimeSeriesDataset_init new_temporal (temporal_cols ?D) ?ni (y_idx ?D)
            (static ?D) (static_cols ?D))"
      using False Inr by (simp add: append_def D Let_def)
    show ?thesis
    proof (cases "fst (append_loop_heap self futr ?na ?nt ?js ?s2)")
      case (Inl e)
      then show ?thesis
        using ft by (simp add: run fun_run)
    next
      case (Inr x)
      then have lp: "append_loop ?D ?F ?ni ?js t0 = Inr t"
        using ft by simp
      have pre: "?nt < length (tensors ?s3)" "?na < length (arrays ?s3)"
        "case a_static (objects s ! self) of None \<Rightarrow> True | Some a \<Rightarrow> a < length (tensors ?s3)"
        using assms(1) by (auto simp: live_def split: option.splits)
      have st: "map_option (\<lambda>a. tensors ?s3 ! a) (a_static (objects s ! self)) = static ?D"
        using assms(1)
        by (cases "a_static (objects s ! self)") (simp_all add: live_def dataset_at_def nth_append)
      obtain res s' where r: "TimeSeriesDataset_new ?nt (temporal_cols ?D) ?na (y_idx ?D)
          (a_static (objects s ! self)) (static_cols ?D) ?s3 = (res, s')"
        by (cases "TimeSeriesDataset_new ?nt (temporal_cols ?D) ?na (y_idx ?D)
          (a_static (objects s ! self)) (static_cols ?D) ?s3")
      have hr: "append_heap u self futr s = (res, s')"
        by (simp add: run Inr r)
      have fr: "append u ?D ?F =
          TimeSeriesDataset_init t (temporal_cols ?D) ?ni (y_idx ?D) (static ?D) (static_cols ?D)"
        by (simp add: fun_run lp)
      have tn: "tensors ?s3 ! ?nt = t" "arrays ?s3 ! ?na = ?ni"
        by simp_all
      note c = TimeSeriesDataset_new_refines [OF pre, of "temporal_cols ?D" "y_idx ?D"
          "static_cols ?D", unfolded r prod.case st tn fr [symmetric]]
      have A: "take ?na (arrays s') = arrays s" and O: "take (length (objects s)) (objects s') = objects s"
        using c by simp_all
      have "take (length (tensors ?s3)) (tensors s') = tensors ?s3"
        using c by blast
      then have T: "take ?nt (tensors s') = tensors s"
        by (rule take_Suc_snoc) simp
      show ?thesis
      proof (cases res)
        case (Inl e)
        then show ?thesis
          using c by (simp add: hr A O T)
      next
        case (Inr new)
        then show ?thesis
          using c by (simp add: hr A O T) (auto split: option.splits)
      qed
    qed
  qed
qed

lemma trim_dataset_heap_refines:
  assumes "live s d"
  shows "case trim_dataset_heap d l r s of
           (res, s') \<Rightarrow>
             take (length (tensors s)) (tensors s') = tensors s \<and>
             take (length (arrays s)) (arrays s') = arrays s \<and>
             take (length (objects s)) (objects s') = objects s \<and>
             (case res of
                Inl e \<Rightarrow>
                  objects s' = objects s \<and> trim_dataset (dataset_at s d) l r = Inl e
              | Inr new \<Rightarrow>
                  new = length (objects s) \<and> length (objects s') = Suc (length (objects s)) \<and>
                  live s' new \<and> length (arrays s) \<le> a_indptr (objects s' ! new) \<and>
                  length (tensors s) \<le> a_temporal (objects s' ! new) \<and>
                  (case a_static (objects s' ! new) of None \<Rightarrow> True
                   | Some a \<Rightarrow> length (tensors s) \<le> a \<and> a \<noteq> a_temporal (objects s' ! new)) \<and>
                  a_updated (objects s' ! new) = False \<and>
                  trim_dataset (dataset_at s d) l r = Inr (dataset_at s' new))"
proof (cases "a_min_size (objects s ! d) \<le> l + r")
  case True
  then show ?thesis
    by (simp add: trim_dataset_heap_def trim_dataset_def dataset_at_def)
next
  case False
  let ?D = "dataset_at s d"
  let ?nt = "length (tensors s)" and ?na = "length (arrays s)"
  let ?js = "[0..<nat (n_groups ?D)]"
  have D: "temporal ?D = tensors s ! a_temporal (objects s ! d)"
    "n_groups ?D = a_n_groups (objects s ! d)" "min_size ?D = a_min_size (objects s ! d)"
    by (simp_all add: dataset_at_def)
  show ?thesis
  proof (cases "zeros (int (nrows (temporal ?D)) - (l + r) * n_groups ?D)
                  (int (ncols (temporal ?D))) :: error + 'a tensor")
    case (Inl e)
    then show ?thesis
      using False
      by (simp add: trim_dataset_heap_def trim_dataset_def bind_st_def new_tensor_def
          D [symmetric])
  next
    case (Inr t0)
    let ?s2 = "s\<lparr>tensors := tensors s @ [t0]\<rparr>"
    have ext: "take ?nt (tensors ?s2) = tensors s" "take ?na (arrays ?s2) = arrays s"
      "take (length (objects s)) (objects ?s2) = objects s"
      by simp_all
    note l1 = live_frame [OF assms(1) ext]
    have ne: "a_temporal (objects ?s2 ! d) \<noteq> ?nt" "a_static (objects ?s2 ! d) \<noteq> Some ?nt"
      using assms by (auto simp: live_def)
    have lt: "?nt < length (tensors ?s2)"
      by simp
    have eqs: "dataset_at ?s2 d = ?D" "tensors ?s2 ! ?nt = t0"
      using l1 by simp_all
    have "\<exists>t. snd (trim_loop_heap d l r ?nt ?js (0, [0]) ?s2) =
          ?s2\<lparr>tensors := (tensors ?s2)[?nt := t]\<rparr> \<and>
        (case fst (trim_loop_heap d l r ?nt ?js (0, [0]) ?s2) of
          Inl e \<Rightarrow> trim_loop (dataset_at ?s2 d) l r ?js (tensors ?s2 ! ?nt, 0, [0]) = Inl e
        | Inr st \<Rightarrow> trim_loop (dataset_at ?s2 d) l r ?js (tensors ?s2 ! ?nt, 0, [0]) = Inr (t, st))"
      using ne lt by (rule trim_loop_heap_refines)
    then have "\<exists>t. snd (trim_loop_heap d l r ?nt ?js (0, [0]) ?s2) =
          ?s2\<lparr>tensors := (tensors ?s2)[?nt := t]\<rparr> \<and>
        (case fst (trim_loop_heap d l r ?nt ?js (0, [0]) ?s2) of
          Inl e \<Rightarrow> trim_loop ?D l r ?js (t0, 0, [0]) = Inl e
        | Inr st \<Rightarrow> trim_loop ?D l r ?js (t0, 0, [0]) = Inr (t, st))"
      unfolding eqs .
    then obtain t where sn: "snd (trim_loop_heap d l r ?nt ?js (0, [0]) ?s2) =
          ?s2\<lparr>tensors := (tensors ?s2)[?nt := t]\<rparr>"
      and ft: "case fst (trim_loop_heap d l r ?nt ?js (0, [0]) ?s2) of
          Inl e \<Rightarrow> trim_loop ?D l r ?js (t0, 0, [0]) = Inl e
        | Inr st \<Rightarrow> trim_loop ?D l r ?js (t0, 0, [0]) = Inr (t, st)"
      by blast
    let ?s2' = "s\<lparr>tensors := tensors s @ [t]\<rparr>"
    have s2': "?s2\<lparr>tensors := (tensors ?s2)[?nt := t]\<rparr> = ?s2'"
      by simp
    have run: "trim_dataset_heap d l r s =
        (case fst (trim_loop_heap d l r ?nt ?js (0, [0]) ?s2) of
           Inl e \<Rightarrow> (Inl e, ?s2')
         | Inr (acum, ip) \<Rightarrow>
             TimeSeriesDataset_new ?nt (temporal_cols ?D) ?na (y_idx ?D)
               (a_static (objects s ! d)) (static_cols ?D)
               (s\<lparr>tensors := tensors s @ [t], arrays := arrays s @ [ip]\<rparr>))"
    proof -
      have f0: "zeros (int (nrows (tensors s ! a_temporal (objects s ! d))) -
            (l + r) * a_n_groups (objects s ! d))
          (int (ncols (tensors s ! a_temporal (objects s ! d)))) = Inr t0"
        using Inr by (simp add: D)
      show ?thesis
        using False f0 sn [unfolded s2']
        by (auto simp: trim_dataset_heap_def bind_st_def new_tensor_def new_array_def Let_def
            dataset_at_def split: sum.splits prod.splits)
    qed
    have fun_run: "trim_dataset ?D l r =
        and_then (trim_loop ?D l r ?js (t0, 0, [0])) (\<lambda>(new_temporal, acum, new_indptr).
          TimeSeriesDataset_init new_temporal (temporal_cols ?D) new_indptr (y_idx ?D)
            (static ?D) (static_cols ?D))"
      using False Inr by (simp add: trim_dataset_def D Let_def)
    show ?thesis
    proof (cases "fst (trim_loop_heap d l r ?nt ?js (0, [0]) ?s2)")
      case (Inl e)
      then show ?thesis
        using ft by (simp add: run fun_run)
    next
      case (Inr st)
      obtain acum ip where st: "st = (acum, ip)"
        by (cases st)
      have lp: "trim_loop ?D l r ?js (t0, 0, [0]) = Inr (t, acum, ip)"
        using ft Inr st by simp
      let ?s3 = "s\<lparr>tensors := tensors s @ [t], arrays := arrays s @ [ip]\<rparr>"
      have pre: "?nt < length (tensors ?s3)" "?na < length (arrays ?s3)"
        "case a_static (objects s ! d) of None \<Rightarrow> True | Some a \<Rightarrow> a < length (tensors ?s3)"
        using assms(1) by (auto simp: live_def split: option.splits)
      have sta: "map_option (\<lambda>a. tensors ?s3 ! a) (a_static (objects s ! d)) = static ?D"
        using assms(1)
        by (cases "a_static (objects s ! d)") (simp_all add: live_def dataset_at_def nth_append)
      obtain res s' where c0: "TimeSeriesDataset_new ?nt (temporal_cols ?D) ?na (y_idx ?D)
          (a_static (objects s ! d)) (static_cols ?D) ?s3 = (res, s')"
        by (cases "TimeSeriesDataset_new ?nt (temporal_cols ?D) ?na (y_idx ?D)
          (a_static (objects s ! d)) (static_cols ?D) ?s3")
      have hr: "trim_dataset_heap d l r s = (res, s')"
        by (simp add: run Inr st c0)
      have fr: "trim_dataset ?D l r =
          TimeSeriesDataset_init t (temporal_cols ?D) ip (y_idx ?D) (static ?D) (static_cols ?D)"
        by (simp add: fun_run lp)
      have tn: "tensors ?s3 ! ?nt = t" "arrays ?s3 ! ?na = ip"
        by simp_all
      note c = TimeSeriesDataset_new_refines [OF pre, of "temporal_cols ?D" "y_idx ?D"
          "static_cols ?D", unfolded c0 prod.case sta tn fr [symmetric]]
      have A: "take ?na (arrays s') = arrays s" and O: "take (length (objects s)) (objects s') = objects s"
        using c by simp_all
      have "take (length (tensors ?s3)) (tensors s') = tensors ?s3"
        using c by blast
      then have T: "take ?nt (tensors s') = tensors s"
        by (rule take_Suc_snoc) simp
      show ?thesis
      proof (cases res)
        case (Inl e)
        then show ?thesis
          using c by (simp add: hr A O T)
      next
        case (Inr new)
        then show ?thesis
          using c by (simp add: hr A O T) (auto split: option.splits)
      qed
    qed
  qed
qed

lemma unchangedI:
  assumes "take (length (tensors s)) (tensors s') = tensors s"
    and "take (length (arrays s)) (arrays s') = arrays s"
    and "take (length (objects s)) (objects s') = objects s"
  shows "unchanged s s'"
  unfolding unchanged_def
  using take_eq_nth [OF assms(1)] take_eq_nth [OF assms(2)] take_eq_nth [OF assms(3)]
    take_eq_length [OF assms(1)] take_eq_length [OF assms(2)] take_eq_length [OF assms(3)]
  by auto

text \<open>
  Claim C9. \<^verbatim>\<open>append\<close> and \<^verbatim>\<open>trim_dataset\<close> do not mutate their inputs: run as
  statements on the store, they change no tensor, no array and no object that was there
  before the call, so every dataset of the store, the inputs among them, has all its
  attributes unchanged; when they return, the result is a new object, distinct from the
  inputs, that refers to newly allocated arrays and denotes the dataset the method
  computes; when they raise, no object is added. The flag \<^verbatim>\<open>updated\<close> is neither read
  nor set: the result of either method does not depend on the flag of its inputs, the
  inputs keep their flag, and the new object has the flag \<open>False\<close>; so \<^verbatim>\<open>append\<close>
  can be applied any number of times to compatible datasets.
\<close>

theorem append_trim_frame:
  assumes "live s self" and "live s futr" and "live s d"
  shows "(case append_heap u self futr s of
            (res, s') \<Rightarrow>
              unchanged s s' \<and>
              (\<forall>x. live s x \<longrightarrow> live s' x \<and> dataset_at s' x = dataset_at s x) \<and>
              dataset_at s' self = dataset_at s self \<and>
              dataset_at s' futr = dataset_at s futr \<and>
              (case res of
                 Inl e \<Rightarrow>
                   objects s' = objects s \<and>
                   append u (dataset_at s self) (dataset_at s futr) = Inl e
               | Inr new \<Rightarrow>
                   new = length (objects s) \<and> length (objects s') = Suc (length (objects s)) \<and>
                   new \<noteq> self \<and> new \<noteq> futr \<and> live s' new \<and>
                   length (tensors s) \<le> a_temporal (objects s' ! new) \<and>
                   length (arrays s) \<le> a_indptr (objects s' ! new) \<and>
                   (case a_static (objects s' ! new) of None \<Rightarrow> True
                    | Some a \<Rightarrow> length (tensors s) \<le> a) \<and>
                   a_updated (objects s' ! new) = False \<and>
                   append u (dataset_at s self) (dataset_at s futr) = Inr (dataset_at s' new))) \<and>
         (case trim_dataset_heap d left_trim right_trim s of
            (res, s') \<Rightarrow>
              unchanged s s' \<and>
              (\<forall>x. live s x \<longrightarrow> live s' x \<and> dataset_at s' x = dataset_at s x) \<and>
              dataset_at s' d = dataset_at s d \<and>
              (case res of
                 Inl e \<Rightarrow>
                   objects s' = objects s \<and>
                   trim_dataset (dataset_at s d) left_trim right_trim = Inl e
               | Inr new \<Rightarrow>
                   new = length (objects s) \<and> length (objects s') = Suc (length (objects s)) \<and>
                   new \<noteq> d \<and> live s' new \<and>
                   length (tensors s) \<le> a_temporal (objects s' ! new) \<and>
                   length (arrays s) \<le> a_indptr (objects s' ! new) \<and>
                   (case a_static (objects s' ! new) of None \<Rightarrow> True
                    | Some a \<Rightarrow> length (tensors s) \<le> a) \<and>
                   a_updated (objects s' ! new) = False \<and>
                   trim_dataset (dataset_at s d) left_trim right_trim =
                     Inr (dataset_at s' new))) \<and>
         append u ((dataset_at s self)\<lparr>updated := p\<rparr>) ((dataset_at s futr)\<lparr>updated := q\<rparr>) =
           append u (dataset_at s self) (dataset_at s futr) \<and>
         trim_dataset ((dataset_at s d)\<lparr>updated := p\<rparr>) left_trim right_trim =
           trim_dataset (dataset_at s d) left_trim right_trim \<and>
         getitem ((dataset_at s d)\<lparr>updated := p\<rparr>) idx = getitem (dataset_at s d) idx \<and>
         dataset_eq ((dataset_at s d)\<lparr>updated := p\<rparr>) other = dataset_eq (dataset_at s d) other \<and>
         align nan ((dataset_at s d)\<lparr>updated := p\<rparr>) df id_col time_col target_col =
           align nan (dataset_at s d) df id_col time_col target_col \<and>
         (wf_dataset (dataset_at s self) \<and>
          list_all (\<lambda>f. wf_dataset f \<and> length (indptr f) = length (indptr (dataset_at s self)) \<and>
                         ncols (temporal f) = ncols (temporal (dataset_at s self))) fs \<longrightarrow>
            (\<exists>d'. append_all u (dataset_at s self) fs = Inr d'))"
proof (intro conjI)
  obtain res s' where r: "append_heap u self futr s = (res, s')"
    by (cases "append_heap u self futr s")
  note c = append_heap_refines [OF assms(1,2), of u, unfolded r prod.case]
  have t: "take (length (tensors s)) (tensors s') = tensors s"
    and a: "take (length (arrays s)) (arrays s') = arrays s"
    and ob: "take (length (objects s)) (objects s') = objects s"
    using c by simp_all
  have fr: "live s' x \<and> dataset_at s' x = dataset_at s x" if "live s x" for x
    using live_frame [OF that t a ob] by simp
  have lt: "self < length (objects s)" "futr < length (objects s)"
    using assms by (simp_all add: live_def)
  have "unchanged s s'"
    using t a ob by (rule unchangedI)
  moreover have "case res of
      Inl e \<Rightarrow> objects s' = objects s \<and> append u (dataset_at s self) (dataset_at s futr) = Inl e
    | Inr new \<Rightarrow>
        new = length (objects s) \<and> length (objects s') = Suc (length (objects s)) \<and>
        new \<noteq> self \<and> new \<noteq> futr \<and> live s' new \<and>
        length (tensors s) \<le> a_temporal (objects s' ! new) \<and>
        length (arrays s) \<le> a_indptr (objects s' ! new) \<and>
        (case a_static (objects s' ! new) of None \<Rightarrow> True | Some a \<Rightarrow> length (tensors s) \<le> a) \<and>
        a_updated (objects s' ! new) = False \<and>
        append u (dataset_at s self) (dataset_at s futr) = Inr (dataset_at s' new)"
    using c lt by (cases res) (auto split: option.splits)
  ultimately show "case append_heap u self futr s of
            (res, s') \<Rightarrow>
              unchanged s s' \<and>
              (\<forall>x. live s x \<longrightarrow> live s' x \<and> dataset_at s' x = dataset_at s x) \<and>
              dataset_at s' self = dataset_at s self \<and>
              dataset_at s' futr = dataset_at s futr \<and>
              (case res of
                 Inl e \<Rightarrow>
                   objects s' = objects s \<and>
                   append u (dataset_at s self) (dataset_at s futr) = Inl e
               | Inr new \<Rightarrow>
                   new = length (objects s) \<and> length (objects s') = Suc (length (objects s)) \<and>
                   new \<noteq> self \<and> new \<noteq> futr \<and> live s' new \<and>
                   length (tensors s) \<le> a_temporal (objects s' ! new) \<and>
                   length (arrays s) \<le> a_indptr (objects s' ! new) \<and>
                   (case a_static (objects s' ! new) of None \<Rightarrow> True
                    | Some a \<Rightarrow> length (tensors s) \<le> a) \<and>
                   a_updated (objects s' ! new) = False \<and>
                   append u (dataset_at s self) (dataset_at s futr) = Inr (dataset_at s' new))"
    using fr assms(1,2) by (simp add: r)
next
  obtain res s' where r: "trim_dataset_heap d left_trim right_trim s = (res, s')"
    by (cases "trim_dataset_heap d left_trim right_trim s")
  note c = trim_dataset_heap_refines [OF assms(3), of left_trim right_trim, unfolded r prod.case]
  have t: "take (length (tensors s)) (tensors s') = tensors s"
    and a: "take (length (arrays s)) (arrays s') = arrays s"
    and ob: "take (length (objects s)) (objects s') = objects s"
    using c by simp_all
  have fr: "live s' x \<and> dataset_at s' x = dataset_at s x" if "live s x" for x
    using live_frame [OF that t a ob] by simp
  have lt: "d < length (objects s)"
    using assms by (simp add: live_def)
  have "unchanged s s'"
    using t a ob by (rule unchangedI)
  moreover have "case res of
      Inl e \<Rightarrow> objects s' = objects s \<and> trim_dataset (dataset_at s d) left_trim right_trim = Inl e
    | Inr new \<Rightarrow>
        new = length (objects s) \<and> length (objects s') = Suc (length (objects s)) \<and>
        new \<noteq> d \<and> live s' new \<and>
        length (tensors s) \<le> a_temporal (objects s' ! new) \<and>
        length (arrays s) \<le> a_indptr (objects s' ! new) \<and>
        (case a_static (objects s' ! new) of None \<Rightarrow> True | Some a \<Rightarrow> length (tensors s) \<le> a) \<and>
        a_updated (objects s' ! new) = False \<and>
        trim_dataset (dataset_at s d) left_trim right_trim = Inr (dataset_at s' new)"
    using c lt by (cases res) (auto split: option.splits)
  ultimately show "case trim_dataset_heap d left_trim right_trim s of
            (res, s') \<Rightarrow>
              unchanged s s' \<and>
              (\<forall>x. live s x \<longrightarrow> live s' x \<and> dataset_at s' x = dataset_at s x) \<and>
              dataset_at s' d = dataset_at s d \<and>
              (case res of
                 Inl e \<Rightarrow>
                   objects s' = objects s \<and>
                   trim_dataset (dataset_at s d) left_trim right_trim = Inl e
               | Inr new \<Rightarrow>
                   new = length (objects s) \<and> length (objects s') = Suc (length (objects s)) \<and>
                   new \<noteq> d \<and> live s' new \<and>
                   length (tensors s) \<le> a_temporal (objects s' ! new) \<and>
                   length (arrays s) \<le> a_indptr (objects s' ! new) \<and>
                   (case a_static (objects s' ! new) of None \<Rightarrow> True
                    | Some a \<Rightarrow> length (tensors s) \<le> a) \<and>
                   a_updated (objects s' ! new) = False \<and>
                   trim_dataset (dataset_at s d) left_trim right_trim =
                     Inr (dataset_at s' new))"
    using fr assms(3) by (simp add: r)
next
  show "append u ((dataset_at s self)\<lparr>updated := p\<rparr>) ((dataset_at s futr)\<lparr>updated := q\<rparr>) =
           append u (dataset_at s self) (dataset_at s futr)"
    by (rule append_ignores_updated)
  show "trim_dataset ((dataset_at s d)\<lparr>updated := p\<rparr>) left_trim right_trim =
           trim_dataset (dataset_at s d) left_trim right_trim"
    by (rule trim_ignores_updated)
  show "getitem ((dataset_at s d)\<lparr>updated := p\<rparr>) idx = getitem (dataset_at s d) idx"
    by (cases idx) (simp_all add: getitem_def cong: if_cong)
  show "dataset_eq ((dataset_at s d)\<lparr>updated := p\<rparr>) other = dataset_eq (dataset_at s d) other"
    by (simp add: dataset_eq_def)
  show "align nan ((dataset_at s d)\<lparr>updated := p\<rparr>) df id_col time_col target_col =
           align nan (dataset_at s d) df id_col time_col target_col"
    by (simp add: align_def)
  show "wf_dataset (dataset_at s self) \<and>
          list_all (\<lambda>f. wf_dataset f \<and> length (indptr f) = length (indptr (dataset_at s self)) \<and>
                         ncols (temporal f) = ncols (temporal (dataset_at s self))) fs \<longrightarrow>
            (\<exists>d'. append_all u (dataset_at s self) fs = Inr d')"
    using append_all_succeeds [of "dataset_at s self" fs u] by blast
qed

theorem append_trim_frame_witness:
  "live example_store 0 \<and> live example_store 1 \<and> live example_store 2 \<and>
   dataset_at example_store 0 = example_static \<and>
   dataset_at example_store 1 = example_futr \<and>
   dataset_at example_store 2 = example_long \<and>
   fst (append_heap 0 0 1 example_store) = Inr 3 \<and>
   dataset_at (snd (append_heap 0 0 1 example_store)) 3 =
     example_appended\<lparr>static := Some \<lparr>ncols = 1, rows = [[10], [20]]\<rparr>,
                      static_cols := Some [''s'']\<rparr> \<and>
   objects (snd (append_heap 0 0 1 example_store)) ! 3 =
     \<lparr>a_temporal = 5, a_temporal_cols = [''y'', ''available_mask''], a_indptr = 3,
      a_n_groups = 2, a_static = Some 6, a_static_cols = Some [''s''], a_max_size = 3,
      a_min_size = 3, a_y_idx = 0, a_updated = False\<rparr> \<and>
   unchanged example_store (snd (append_heap 0 0 1 example_store)) \<and>
   dataset_at (snd (append_heap 0 0 1 example_store)) 0 = example_static \<and>
   dataset_at (snd (append_heap 0 0 1 example_store)) 1 = example_futr \<and>
   fst (trim_dataset_heap 2 1 1 example_store) = Inr 3 \<and>
   dataset_at (snd (trim_dataset_heap 2 1 1 example_store)) 3 =
     \<lparr>temporal = \<lparr>ncols = 1, rows = [[2], [5], [6]]\<rparr>, temporal_cols = [''y''],
      indptr = [0, 1, 3], n_groups = 2, static = None, static_cols = None, max_size = 2,
      min_size = 1, y_idx = 0, updated = False\<rparr> \<and>
   unchanged example_store (snd (trim_dataset_heap 2 1 1 example_store)) \<and>
   dataset_at (snd (trim_dataset_heap 2 1 1 example_store)) 2 = example_long \<and>
   append 0 (example_static\<lparr>updated := True\<rparr>) (example_futr\<lparr>updated := True\<rparr>) =
     append 0 example_static example_futr \<and>
   wf_dataset example_static \<and>
   list_all (\<lambda>f. wf_dataset f \<and> length (indptr f) = length (indptr example_static) \<and>
                  ncols (temporal f) = ncols (temporal example_static))
     [example_futr, example_futr] \<and>
   (\<exists>d'. append_all 0 example_static [example_futr, example_futr] = Inr d')"
proof -
  have l: "live example_store 0" "live example_store 1" "live example_store 2"
    by code_simp+
  have v: "dataset_at example_store 0 = example_static"
    "dataset_at example_store 1 = example_futr" "dataset_at example_store 2 = example_long"
    by code_simp+
  note t = append_trim_frame [OF l, where u = 0
      and left_trim = 1 and right_trim = 1 and p = True and q = True
      and fs = "[example_futr, example_futr]" and idx = "IntIdx 0" and other = "OtherObj []"
      and nan = 0 and df = example_df and id_col = "''unique_id''" and time_col = "''ds''"
      and target_col = "''y''", unfolded v]
  have a: "fst (append_heap 0 0 1 example_store) = Inr 3"
    by code_simp
  have a3: "dataset_at (snd (append_heap 0 0 1 example_store)) 3 =
     example_appended\<lparr>static := Some \<lparr>ncols = 1, rows = [[10], [20]]\<rparr>,
                      static_cols := Some [''s'']\<rparr>"
    by code_simp
  have ao: "objects (snd (append_heap 0 0 1 example_store)) ! 3 =
     \<lparr>a_temporal = 5, a_temporal_cols = [''y'', ''available_mask''], a_indptr = 3,
      a_n_groups = 2, a_static = Some 6, a_static_cols = Some [''s''], a_max_size = 3,
      a_min_size = 3, a_y_idx = 0, a_updated = False\<rparr>"
    by code_simp
  have tr: "fst (trim_dataset_heap 2 1 1 example_store) = Inr 3"
    by code_simp
  have tr3: "dataset_at (snd (trim_dataset_heap 2 1 1 example_store)) 3 =
     \<lparr>temporal = \<lparr>ncols = 1, rows = [[2], [5], [6]]\<rparr>, temporal_cols = [''y''],
      indptr = [0, 1, 3], n_groups = 2, static = None, static_cols = None, max_size = 2,
      min_size = 1, y_idx = 0, updated = False\<rparr>"
    by code_simp
  have w: "wf_dataset example_static"
    by code_simp
  have c: "list_all (\<lambda>f. wf_dataset f \<and> length (indptr f) = length (indptr example_static) \<and>
                  ncols (temporal f) = ncols (temporal example_static))
     [example_futr, example_futr]"
    by code_simp
  have ua: "unchanged example_store (snd (append_heap 0 0 1 example_store)) \<and>
      dataset_at (snd (append_heap 0 0 1 example_store)) 0 = example_static \<and>
      dataset_at (snd (append_heap 0 0 1 example_store)) 1 = example_futr"
    using t by (simp add: case_prod_unfold)
  have ut: "unchanged example_store (snd (trim_dataset_heap 2 1 1 example_store)) \<and>
      dataset_at (snd (trim_dataset_heap 2 1 1 example_store)) 2 = example_long"
    using t by (simp add: case_prod_unfold)
  have "\<exists>d'. append_all 0 example_static [example_futr, example_futr] = Inr d'"
    using t w c by (elim conjE) blast
  moreover have "append 0 (example_static\<lparr>updated := True\<rparr>) (example_futr\<lparr>updated := True\<rparr>) =
      append 0 example_static example_futr"
    using t by (elim conjE) simp
  ultimately show ?thesis
    using l v a a3 ao tr tr3 w c ua ut by simp
qed

section \<open>Collation\<close>

lemma set_block_shape:
  assumes "set_block tgt rstop cstart v = Inr t'"
  shows "nrows t' = nrows tgt" "ncols t' = ncols tgt"
proof -
  let ?rk = "slice_bound (nrows tgt) rstop" and ?lo = "slice_bound (ncols tgt) cstart"
  obtain vr where e: "expand v ?rk (ncols tgt - ?lo) = Some vr"
    and t: "t' = tgt\<lparr>rows := map (\<lambda>(old, new). take ?lo old @ new) (zip (take ?rk (rows tgt)) vr)
                                @ drop ?rk (rows tgt)\<rparr>"
    using assms by (auto simp: set_block_def Let_def split: option.splits)
  have "length vr = ?rk"
    using e by (rule length_expand)
  moreover have "?rk \<le> nrows tgt"
    by (rule slice_bound_le)
  ultimately show "nrows t' = nrows tgt"
    by (simp add: t nrows_def min_def)
  show "ncols t' = ncols tgt"
    by (simp add: t)
qed

lemma getitem_item_fields:
  assumes "getitem ds idx = Inr item"
  shows "shape2 (it_temporal item) = [length (temporal_cols ds), nat (max_size ds)]"
    and "it_temporal_cols item = temporal_cols ds" and "it_y_idx item = y_idx ds"
    and "it_static_cols item = static_cols ds"
    and "static ds = None \<Longrightarrow> it_static item = None"
    and "static ds = Some s \<Longrightarrow> \<exists>r \<in> set (rows s). it_static item = Some r"
proof -
  obtain i where idx: "idx = IntIdx i"
    using assms by (cases idx) (simp_all add: getitem_def)
  let ?C = "length (temporal_cols ds)"
  from assms obtain start stop t' s' where
    t: "(let ts = slice_rows (temporal ds) start stop in
        (if (int ?C, max_size ds) = (int (ncols ts), int (nrows ts))
             then Inr (permute10 ts)
             else and_then (zeros (int ?C) (max_size ds)) (\<lambda>z.
                    set_block z (int ?C) (- int (nrows ts)) (permute10 ts)))) = Inr t'"
    and s: "(case static ds of None \<Rightarrow> Inr None
             | Some s \<Rightarrow> and_then (np_index (rows s) i) (\<lambda>r. Inr (Some r))) = Inr s'"
    and item: "item = \<lparr>it_temporal = t', it_temporal_cols = temporal_cols ds,
               it_static = s', it_static_cols = static_cols ds, it_y_idx = y_idx ds\<rparr>"
    unfolding idx getitem_def by (auto simp: and_then_Inr_iff Let_def)
  define ts where "ts = slice_rows (temporal ds) start stop"
  have "shape2 t' = [?C, nat (max_size ds)]"
  proof (cases "(int ?C, max_size ds) = (int (ncols ts), int (nrows ts))")
    case True
    then have "t' = permute10 ts"
      using t by (simp add: ts_def [symmetric] Let_def)
    then show ?thesis
      using True by (auto simp: shape2_def permute10_def nrows_def)
  next
    case False
    then obtain z where z: "zeros (int ?C) (max_size ds) = Inr z"
      and b: "set_block z (int ?C) (- int (nrows ts)) (permute10 ts) = Inr t'"
      using t by (auto simp: ts_def [symmetric] Let_def and_then_Inr_iff)
    have "nrows z = ?C" "ncols z = nat (max_size ds)"
      using z by (auto simp: zeros_def filled_def nrows_def split: if_splits)
    then show ?thesis
      using set_block_shape [OF b] by (simp add: shape2_def)
  qed
  then show "shape2 (it_temporal item) = [?C, nat (max_size ds)]"
    by (simp add: item)
  show "it_temporal_cols item = temporal_cols ds" "it_y_idx item = y_idx ds"
    "it_static_cols item = static_cols ds"
    by (simp_all add: item)
  show "static ds = None \<Longrightarrow> it_static item = None"
    using s by (simp add: item)
  show "static ds = Some s \<Longrightarrow> \<exists>r \<in> set (rows s). it_static item = Some r"
    using s by (auto simp: item and_then_Inr_iff np_index_def split: if_splits)
qed

lemma gather_map: "gather f (map MappingElem items) = Inr (map f items)"
  by (induction items) simp_all

lemma collate_tensors_same:
  assumes "xs \<noteq> []" "\<forall>x \<in> set xs. shape x = sh"
  shows "collate_tensors shape (hd xs) (map Some xs) = Inr (Stacked (length xs # sh) xs)"
proof (cases "length xs = 1")
  case True
  then obtain x where "xs = [x]"
    by (cases xs) auto
  then show ?thesis
    using assms by (simp add: collate_tensors_def)
next
  case False
  have "hd xs \<in> set xs"
    using assms(1) by simp
  then have "shape (hd xs) = sh"
    using assms(2) by blast
  then show ?thesis
    using False assms(2) by (auto simp: collate_tensors_def list_all_iff comp_def)
qed


text \<open>
  Claim C7. For a non-empty batch of items produced by a dataset, \<^verbatim>\<open>_collate_fn\<close>
  returns a dictionary in which \<^verbatim>\<open>temporal\<close> is the stack of the temporal tensors of the
  items, of shape \<open>(batch, C, max_size)\<close>, and \<^verbatim>\<open>temporal_cols\<close> and \<^verbatim>\<open>y_idx\<close> are
  those of the first item; the keys \<^verbatim>\<open>static\<close> (the stack of the static rows) and
  \<^verbatim>\<open>static_cols\<close> are present exactly when the static entry of the first item is not
  \<open>None\<close>. A batch whose first element is neither a tensor nor a mapping raises
  \<^verbatim>\<open>TypeError\<close>.
\<close>

theorem collate_fn_items:
  assumes "items \<noteq> []"
    and "list_all (\<lambda>it. \<exists>idx. getitem ds idx = Inr it) items"
    and "case static ds of None \<Rightarrow> True | Some s \<Rightarrow> wf_tensor s"
  shows "collate_fn (map MappingElem items) =
           Inr (CollatedDict
             ((case it_static (hd items) of
                 None \<Rightarrow> []
               | Some s \<Rightarrow>
                   [(''static'',
                       Stacked1 (Stacked [length items, length s] (map (the \<circ> it_static) items))),
                    (''static_cols'',
                       (case it_static_cols (hd items) of None \<Rightarrow> NoneValue | Some c \<Rightarrow> Names c))])
              @ [(''temporal'',
                    Stacked2 (Stacked [length items, length (temporal_cols ds), nat (max_size ds)]
                                (map it_temporal items))),
                 (''temporal_cols'', Names (it_temporal_cols (hd items))),
                 (''y_idx'', IntValue (it_y_idx (hd items)))])) \<and>
         collate_fn (OtherElem # rest) = Inl TypeError"
proof -
  obtain e es where items: "items = e # es"
    using assms(1) by (cases items) auto
  have all: "\<And>it. it \<in> set items \<Longrightarrow> \<exists>idx. getitem ds idx = Inr it"
    using assms(2) by (simp add: list_all_iff)
  have sh: "\<forall>t \<in> set (map it_temporal items).
      shape2 t = [length (temporal_cols ds), nat (max_size ds)]"
    using all by (auto dest: getitem_item_fields(1))
  have tm: "collate_tensors shape2 (it_temporal e) (map Some (map it_temporal items)) =
      Inr (Stacked [length items, length (temporal_cols ds), nat (max_size ds)]
             (map it_temporal items))"
    using collate_tensors_same [OF _ sh] by (simp add: items)
  have "collate_fn (map MappingElem items) =
           Inr (CollatedDict
             ((case it_static (hd items) of
                 None \<Rightarrow> []
               | Some s \<Rightarrow>
                   [(''static'',
                       Stacked1 (Stacked [length items, length s] (map (the \<circ> it_static) items))),
                    (''static_cols'',
                       (case it_static_cols (hd items) of None \<Rightarrow> NoneValue | Some c \<Rightarrow> Names c))])
              @ [(''temporal'',
                    Stacked2 (Stacked [length items, length (temporal_cols ds), nat (max_size ds)]
                                (map it_temporal items))),
                 (''temporal_cols'', Names (it_temporal_cols (hd items))),
                 (''y_idx'', IntValue (it_y_idx (hd items)))]))"
  proof (cases "it_static e")
    case None
    have g: "gather it_temporal (MappingElem e # map MappingElem es) = Inr (map it_temporal items)"
      using gather_map [of it_temporal items] by (simp add: items)
    show ?thesis
      using None tm by (simp add: collate_fn_def items g del: gather.simps)
  next
    case (Some s)
    obtain idx where ge: "getitem ds idx = Inr e"
      using all [of e] by (auto simp: items)
    obtain st where st: "static ds = Some st"
      using getitem_item_fields(5) [OF ge] Some by (cases "static ds") auto
    have wst: "\<forall>r \<in> set (rows st). length r = ncols st"
      using assms(3) st by (simp add: wf_tensor_def list_all_iff)
    have each: "\<exists>r \<in> set (rows st). it_static it = Some r" if "it \<in> set items" for it
      using all [OF that] getitem_item_fields(6) [OF _ st] by blast
    have "\<exists>r \<in> set (rows st). it_static e = Some r"
      by (rule each) (simp add: items)
    then have ls: "length s = ncols st"
      using Some wst by auto
    have "it_static x = Some (the (it_static x))" if "x \<in> set items" for x
      using each [OF that] by auto
    then have somes: "map it_static items = map Some (map (the \<circ> it_static) items)"
      by (simp add: comp_def)
    have "shape1 (the (it_static x)) = [ncols st]" if "x \<in> set items" for x
      using each [OF that] wst by (auto simp: shape1_def)
    then have shs: "\<forall>v \<in> set (map (the \<circ> it_static) items). shape1 v = [ncols st]"
      by auto
    have hd: "hd (map (the \<circ> it_static) items) = s"
      using Some by (simp add: items)
    have sm: "collate_tensors shape1 s (map it_static items) =
        Inr (Stacked [length items, length s] (map (the \<circ> it_static) items))"
      using collate_tensors_same [OF _ shs] assms(1) unfolding somes hd
      by (simp add: ls)
    have g1: "gather it_temporal (MappingElem e # map MappingElem es) = Inr (map it_temporal items)"
      using gather_map [of it_temporal items] by (simp add: items)
    have g2: "gather it_static (MappingElem e # map MappingElem es) = Inr (map it_static items)"
      using gather_map [of it_static items] by (simp add: items)
    show ?thesis
      using Some tm sm by (simp add: collate_fn_def items g1 g2 del: gather.simps)
  qed
  moreover have "collate_fn (OtherElem # rest) = Inl TypeError"
    by (simp add: collate_fn_def)
  ultimately show ?thesis by simp
qed

theorem collate_fn_items_witness:
  "example_items \<noteq> [] \<and>
   getitem example_static (IntIdx 0) = Inr (example_items ! 0) \<and>
   getitem example_static (IntIdx 1) = Inr (example_items ! 1) \<and>
   (case static example_static of None \<Rightarrow> True | Some s \<Rightarrow> wf_tensor s) \<and>
   collate_fn (map MappingElem example_items) =
     Inr (CollatedDict
       [(''static'', Stacked1 (Stacked [2, 1] [[10], [20]])),
        (''static_cols'', Names [''s'']),
        (''temporal'',
           Stacked2 (Stacked [2, 2, 2]
             [\<lparr>ncols = 2, rows = [[4, 5], [1, 1]]\<rparr>, \<lparr>ncols = 2, rows = [[0, 7], [0, 1]]\<rparr>])),
        (''temporal_cols'', Names [''y'', ''available_mask'']),
        (''y_idx'', IntValue 0)]) \<and>
   collate_fn (OtherElem # map MappingElem example_items) = Inl TypeError"
proof -
  have n: "example_items \<noteq> []"
    by code_simp
  have g0: "getitem example_static (IntIdx 0) = Inr (example_items ! 0)"
    and g1: "getitem example_static (IntIdx 1) = Inr (example_items ! 1)"
    by code_simp+
  have "\<exists>idx. getitem example_static idx = Inr it" if "it \<in> set example_items" for it
  proof -
    have "it = example_items ! 0 \<or> it = example_items ! 1"
      using that by (simp add: example_items_def)
    then show ?thesis
      using g0 g1 by blast
  qed
  then have a: "list_all (\<lambda>it. \<exists>idx. getitem example_static idx = Inr it) example_items"
    by (simp add: list_all_iff)
  have w: "case static example_static of None \<Rightarrow> True | Some s \<Rightarrow> wf_tensor s"
    by code_simp
  have e: "(case it_static (hd example_items) of
              None \<Rightarrow> []
            | Some s \<Rightarrow>
                [(''static'',
                    Stacked1 (Stacked [length example_items, length s]
                                (map (the \<circ> it_static) example_items))),
                 (''static_cols'',
                    (case it_static_cols (hd example_items) of
                       None \<Rightarrow> NoneValue | Some c \<Rightarrow> Names c))])
           @ [(''temporal'',
                 Stacked2 (Stacked [length example_items, length (temporal_cols example_static),
                                    nat (max_size example_static)]
                             (map it_temporal example_items))),
              (''temporal_cols'', Names (it_temporal_cols (hd example_items))),
              (''y_idx'', IntValue (it_y_idx (hd example_items)))] =
       [(''static'', Stacked1 (Stacked [2, 1] [[10], [20]])),
        (''static_cols'', Names [''s'']),
        (''temporal'',
           Stacked2 (Stacked [2, 2, 2]
             [\<lparr>ncols = 2, rows = [[4, 5], [1, 1]]\<rparr>, \<lparr>ncols = 2, rows = [[0, 7], [0, 1]]\<rparr>])),
        (''temporal_cols'', Names [''y'', ''available_mask'']),
        (''y_idx'', IntValue 0)]"
    by code_simp
  show ?thesis
    using n g0 g1 w collate_fn_items [OF n a w, of "map MappingElem example_items"]
    unfolding e by simp
qed

section \<open>Incremental updates\<close>



















lemma nth_pos: "c \<in> set xs \<Longrightarrow> xs ! pos c xs = c"
  by (induction xs) auto
























lemma frame_uids_Nil [simp]: "frame_uids [] = []"
  by (simp add: frame_uids_def)

lemma rec_triple [simp]:
  "rec_id (i, t, vs) = i" "rec_time (i, t, vs) = t" "rec_vals (i, t, vs) = vs"
  by (simp_all add: rec_id_def rec_time_def rec_vals_def)




section \<open>The offsets and the series of produced datasets\<close>














end
